theory Spec2Isabelle
  imports Complex_Main "HOL-Library.Multiset"
begin

section \<open>Numbers, errors and library functions\<close>

text \<open>
  Arithmetic on floats is exact: a finite float is a real number, and there is no rounding
  error and no overflow. The floats of differential evolution are drawn and computed by the
  program itself and are real numbers. The floats of the telemetry-driven optimizer are read
  from text that the metrics server sends, and \<open>float()\<close> accepts the texts
  \<open>NaN\<close>, \<open>+Inf\<close> and \<open>-Inf\<close>: they are values of the type
  \<open>pyfloat\<close> below. Python integers stored in a value vector are the reals
  \<open>of_int k\<close>. Randomness is an explicit argument: each call of the
  \<open>random\<close> module takes its outcome from a draw supplied by the caller, so a run
  is a function of its draws.
\<close>

datatype error = ValueError | ZeroDivisionError | IndexError | ApiException

text \<open>
  A failing run reports the exception together with the number of objective evaluations
  that were completed before it was raised.
\<close>

type_synonym 'a result = "(error \<times> nat) + 'a"

text \<open>\<open>random.uniform(a, b)\<close> is \<open>a + (b - a) * random()\<close>; \<open>u\<close> is the draw.\<close>

definition uniform :: "real \<Rightarrow> real \<Rightarrow> real \<Rightarrow> real" where
  "uniform a b u = a + (b - a) * u"

text \<open>
  \<open>round(x)\<close> of Python 3 on a float: the nearest integer, and the even one of the
  two when \<open>x\<close> lies exactly between two integers.
\<close>

definition py_round :: "real \<Rightarrow> int" where
  "py_round x =
     (let f = \<lfloor>x\<rfloor>; d = x - of_int f
      in if d < 1 / 2 then f
         else if 1 / 2 < d then f + 1
         else if even f then f else f + 1)"

text \<open>\<open>np.clip(x, lo, hi)\<close> is \<open>minimum(maximum(x, lo), hi)\<close>.\<close>

definition np_clip :: "real \<Rightarrow> real \<Rightarrow> real \<Rightarrow> real" where
  "np_clip x lo hi = min (max x lo) hi"

subsection \<open>Floats with infinities and NaN\<close>

text \<open>
  A float that may be special: a number, plus or minus infinity, or NaN. \<open><\<close> and
  \<open><=\<close> are false whenever an operand is NaN; the sum of opposite infinities and
  the product of zero and an infinity are NaN.
\<close>

datatype pyfloat = Num real | PInf | NInf | NaN

fun fl_lt :: "pyfloat \<Rightarrow> pyfloat \<Rightarrow> bool" where
  "fl_lt (Num a) (Num b) = (a < b)"
| "fl_lt (Num a) PInf = True"
| "fl_lt NInf (Num b) = True"
| "fl_lt NInf PInf = True"
| "fl_lt _ _ = False"

fun fl_le :: "pyfloat \<Rightarrow> pyfloat \<Rightarrow> bool" where
  "fl_le (Num a) (Num b) = (a \<le> b)"
| "fl_le (Num a) PInf = True"
| "fl_le NInf (Num b) = True"
| "fl_le NInf PInf = True"
| "fl_le NInf NInf = True"
| "fl_le PInf PInf = True"
| "fl_le _ _ = False"

fun fl_neg :: "pyfloat \<Rightarrow> pyfloat" where
  "fl_neg (Num a) = Num (- a)"
| "fl_neg PInf = NInf"
| "fl_neg NInf = PInf"
| "fl_neg NaN = NaN"

fun fl_add :: "pyfloat \<Rightarrow> pyfloat \<Rightarrow> pyfloat" where
  "fl_add (Num a) (Num b) = Num (a + b)"
| "fl_add NaN _ = NaN"
| "fl_add _ NaN = NaN"
| "fl_add PInf NInf = NaN"
| "fl_add NInf PInf = NaN"
| "fl_add PInf _ = PInf"
| "fl_add _ PInf = PInf"
| "fl_add NInf _ = NInf"
| "fl_add _ NInf = NInf"

definition fl_sub :: "pyfloat \<Rightarrow> pyfloat \<Rightarrow> pyfloat" where
  "fl_sub x y = fl_add x (fl_neg y)"

definition fl_inf :: "bool \<Rightarrow> pyfloat" where
  "fl_inf positive = (if positive then PInf else NInf)"

fun fl_mul :: "pyfloat \<Rightarrow> pyfloat \<Rightarrow> pyfloat" where
  "fl_mul (Num a) (Num b) = Num (a * b)"
| "fl_mul NaN _ = NaN"
| "fl_mul _ NaN = NaN"
| "fl_mul (Num a) PInf = (if a = 0 then NaN else fl_inf (0 < a))"
| "fl_mul (Num a) NInf = (if a = 0 then NaN else fl_inf (a < 0))"
| "fl_mul PInf (Num b) = (if b = 0 then NaN else fl_inf (0 < b))"
| "fl_mul NInf (Num b) = (if b = 0 then NaN else fl_inf (b < 0))"
| "fl_mul PInf PInf = PInf"
| "fl_mul NInf NInf = PInf"
| "fl_mul PInf NInf = NInf"
| "fl_mul NInf PInf = NInf"

text \<open>
  Division of a float by a finite number. Both places that divide (the mean of the
  samples, by their count, and \<open>normalize\<close>, by \<open>hi - lo\<close>) have checked
  before that the divisor is not zero, where Python raises; the value given at zero is
  never used.
\<close>

fun fl_div_by :: "pyfloat \<Rightarrow> real \<Rightarrow> pyfloat" where
  "fl_div_by (Num a) d = (if d = 0 then NaN else Num (a / d))"
| "fl_div_by PInf d = (if d = 0 then NaN else fl_inf (0 < d))"
| "fl_div_by NInf d = (if d = 0 then NaN else fl_inf (d < 0))"
| "fl_div_by NaN d = NaN"

subsection \<open>\<open>list.sort\<close> with a key\<close>

text \<open>
  \<open>list.sort(key=...)\<close> compares keys with \<open><\<close> only. On a list of fewer than
  64 entries CPython (up to version 3.12) finds the run the list starts with (ascending as
  long as no key is less than the one before, or strictly descending, which it reverses) and
  inserts every later entry into the part already handled, at the place a binary search
  with \<open><\<close> gives. That is the function below. Where no key is NaN the result
  is the list sorted by key, as every version gives it for every length; where keys are
  NaN the result is the one of this algorithm, and need not be sorted. The general
  properties below use of \<open>list.sort\<close> only that its result is a permutation of
  the list, and sorted when no key is NaN; the concrete runs with NaN sort four entries.
\<close>

fun ascending_run :: "('a \<Rightarrow> 'a \<Rightarrow> bool) \<Rightarrow> 'a \<Rightarrow> 'a list \<Rightarrow> nat" where
  "ascending_run lt prev [] = 0"
| "ascending_run lt prev (x # xs) = (if lt x prev then 0 else Suc (ascending_run lt x xs))"

fun descending_run :: "('a \<Rightarrow> 'a \<Rightarrow> bool) \<Rightarrow> 'a \<Rightarrow> 'a list \<Rightarrow> nat" where
  "descending_run lt prev [] = 0"
| "descending_run lt prev (x # xs) = (if lt x prev then Suc (descending_run lt x xs) else 0)"

text \<open>\<open>count_run\<close>: the length of the first run, and whether it is descending.\<close>

fun count_run :: "('a \<Rightarrow> 'a \<Rightarrow> bool) \<Rightarrow> 'a list \<Rightarrow> nat \<times> bool" where
  "count_run lt [] = (0, False)"
| "count_run lt [x] = (1, False)"
| "count_run lt (x # y # rest) =
     (if lt y x then (2 + descending_run lt y rest, True)
      else (2 + ascending_run lt y rest, False))"

text \<open>
  The search loop of \<open>binarysort\<close>: \<open>p = l + ((r - l) >> 1)\<close>, then
  \<open>r = p\<close> when the pivot is less than the entry at \<open>p\<close> and \<open>l = p + 1\<close>
  otherwise, until \<open>l\<close> meets \<open>r\<close>.
\<close>

function binary_search :: "('a \<Rightarrow> 'a \<Rightarrow> bool) \<Rightarrow> 'a \<Rightarrow> 'a list \<Rightarrow> nat \<Rightarrow> nat \<Rightarrow> nat" where
  "binary_search lt pivot xs l r =
     (if l < r
      then if lt pivot (xs ! (l + (r - l) div 2))
           then binary_search lt pivot xs l (l + (r - l) div 2)
           else binary_search lt pivot xs (l + (r - l) div 2 + 1) r
      else l)"
  by pat_completeness auto
termination
  by (relation "measure (\<lambda>(lt, pivot, xs, l, r). r - l)") auto

declare binary_search.simps [simp del]

definition binary_insert :: "('a \<Rightarrow> 'a \<Rightarrow> bool) \<Rightarrow> 'a list \<Rightarrow> 'a \<Rightarrow> 'a list" where
  "binary_insert lt acc pivot =
     (let l = binary_search lt pivot acc 0 (length acc)
      in take l acc @ pivot # drop l acc)"

definition list_sort :: "('a \<Rightarrow> pyfloat) \<Rightarrow> 'a list \<Rightarrow> 'a list" where
  "list_sort key xs =
     (if length xs < 2 then xs
      else let lt = (\<lambda>a b. fl_lt (key a) (key b));
               n = fst (count_run lt xs);
               run = (if snd (count_run lt xs) then rev (take n xs) else take n xs)
           in foldl (binary_insert lt) run (drop n xs))"


section \<open>Differential evolution\<close>

type_synonym vec = "real list"

text \<open>
  \<open>evaluate_cicd\<close> unpacks exactly four values (anything else is a ValueError) and
  divides by \<open>cpu\<close> (a ZeroDivisionError at 0). A NumPy float 0, as \<open>np.clip\<close>
  returns it, divides to infinity with a warning instead; the model has no infinity and
  reports the error there too, so a run of the model that returns never scored a vector
  with \<open>cpu = 0\<close>.
\<close>

fun evaluate_cicd :: "vec \<Rightarrow> error + real" where
  "evaluate_cicd [cpu, mem, rep, par] =
     (if cpu = 0 then Inl ZeroDivisionError
      else let build_time = 500 / cpu + mem / 500 + rep * 1.5;
               resource_penalty = cpu * 2 + mem / 800
           in Inr (build_time + resource_penalty))"
| "evaluate_cicd _ = Inl ValueError"

record de_config =
  bounds :: "(real \<times> real) list"
  max_iter :: nat
  pop_size :: nat
  F :: real
  CR :: real

text \<open>
  The draws of one pass of the inner loop: the three positions \<open>random.sample\<close> picks,
  the number behind \<open>random.randint\<close>, and the value of \<open>random.random()\<close> for each
  dimension. The draws of a run: the value behind \<open>random.uniform\<close> for individual
  \<open>p\<close> and dimension \<open>j\<close>, and the draws of pass \<open>i\<close> of iteration \<open>it\<close>.
\<close>

record de_draws =
  sample_picks :: "nat \<times> nat \<times> nat"
  randint_R :: nat
  random_cr :: "nat \<Rightarrow> real"

record de_random =
  init_u :: "nat \<Rightarrow> nat \<Rightarrow> real"
  step_draws :: "nat \<Rightarrow> nat \<Rightarrow> de_draws"

text \<open>
  \<open>random.sample(candidates, 3)\<close>: three elements at distinct positions, chosen one
  after the other among those left; a ValueError when fewer than three are there.
\<close>

definition random_sample3 :: "nat list \<Rightarrow> nat \<times> nat \<times> nat \<Rightarrow> error + nat \<times> nat \<times> nat" where
  "random_sample3 candidates picks =
     (case picks of (k1, k2, k3) \<Rightarrow>
        if length candidates < 3 then Inl ValueError
        else let a = candidates ! (k1 mod length candidates);
                 rest = remove1 a candidates;
                 b = rest ! (k2 mod length rest);
                 rest' = remove1 b rest;
                 c = rest' ! (k3 mod length rest')
             in Inr (a, b, c))"

text \<open>
  The state of a run: the population, its fitness list, and the score of every call of
  \<open>evaluate_cicd\<close> so far, in order (a log the source does not keep; the properties
  about "every evaluated candidate" and about the evaluation budget are stated on it).
\<close>

record de_state =
  population :: "vec list"
  fitness :: "real list"
  scored :: "real list"

definition init_population :: "de_config \<Rightarrow> (nat \<Rightarrow> nat \<Rightarrow> real) \<Rightarrow> vec list" where
  "init_population cfg u =
     map (\<lambda>p. map (\<lambda>i. uniform (fst (bounds cfg ! i)) (snd (bounds cfg ! i)) (u p i))
                [0..<length (bounds cfg)])
         [0..<pop_size cfg]"

text \<open>\<open>fitness = [evaluate_cicd(ind) for ind in population]\<close>, in order, up to the first error.\<close>

fun eval_all :: "vec list \<Rightarrow> real list \<Rightarrow> real list result" where
  "eval_all [] acc = Inr acc"
| "eval_all (ind # rest) acc =
     (case evaluate_cicd ind of
        Inl e \<Rightarrow> Inl (e, length acc)
      | Inr s \<Rightarrow> eval_all rest (acc @ [s]))"

definition de_init :: "de_config \<Rightarrow> de_random \<Rightarrow> de_state result" where
  "de_init cfg rnd =
     (let pop = init_population cfg (init_u rnd)
      in case eval_all pop [] of
           Inl e \<Rightarrow> Inl e
         | Inr fit \<Rightarrow> Inr \<lparr>population = pop, fitness = fit, scored = fit\<rparr>)"

text \<open>Lines 41 to 47: the mutant, clipped into the bounds dimension by dimension.\<close>

definition de_mutant :: "de_config \<Rightarrow> vec \<Rightarrow> vec \<Rightarrow> vec \<Rightarrow> vec" where
  "de_mutant cfg x1 x2 x3 = map (\<lambda>j. x1 ! j + F cfg * (x2 ! j - x3 ! j)) [0..<length (bounds cfg)]"

definition clip_mutant :: "(real \<times> real) list \<Rightarrow> vec \<Rightarrow> vec" where
  "clip_mutant bs mutant =
     map (\<lambda>j. np_clip (mutant ! j) (fst (bs ! j)) (snd (bs ! j))) [0..<length bs]"

text \<open>Lines 49 to 55: the crossover; \<open>random.random()\<close> is called for every dimension.\<close>

definition crossover :: "de_config \<Rightarrow> de_draws \<Rightarrow> nat \<Rightarrow> vec \<Rightarrow> vec \<Rightarrow> vec" where
  "crossover cfg d R mutant x =
     map (\<lambda>j. if random_cr d j < CR cfg \<or> j = R then mutant ! j else x ! j)
         [0..<length (bounds cfg)]"

text \<open>
  Lines 58 and 59: \<open>trial[2] = int(round(trial[2]))\<close> and the same at index 3; an
  IndexError when the trial has fewer than four entries.
\<close>

definition round_integer_params :: "vec \<Rightarrow> error + vec" where
  "round_integer_params trial =
     (if length trial < 4 then Inl IndexError
      else Inr (trial[2 := of_int (py_round (trial ! 2)), 3 := of_int (py_round (trial ! 3))]))"

text \<open>Lines 35 to 59: the trial of pass \<open>i\<close>, as it is handed to \<open>evaluate_cicd\<close>.\<close>

definition de_trial :: "de_config \<Rightarrow> de_draws \<Rightarrow> nat \<Rightarrow> vec list \<Rightarrow> error + vec" where
  "de_trial cfg d i pop =
     (let dim = length (bounds cfg);
          candidates = remove1 i [0..<pop_size cfg]
      in case random_sample3 candidates (sample_picks d) of
           Inl e \<Rightarrow> Inl e
         | Inr (a, b, c) \<Rightarrow>
             let mutant = clip_mutant (bounds cfg) (de_mutant cfg (pop ! a) (pop ! b) (pop ! c))
             in if dim = 0 then Inl ValueError
                else let R = randint_R d mod dim
                     in round_integer_params (crossover cfg d R mutant (pop ! i)))"

text \<open>Lines 61 to 65: the trial is scored, and replaces the incumbent when it is better.\<close>

definition de_step :: "de_config \<Rightarrow> de_draws \<Rightarrow> nat \<Rightarrow> de_state \<Rightarrow> de_state result" where
  "de_step cfg d i st =
     (case de_trial cfg d i (population st) of
        Inl e \<Rightarrow> Inl (e, length (scored st))
      | Inr trial \<Rightarrow>
          (case evaluate_cicd trial of
             Inl e \<Rightarrow> Inl (e, length (scored st))
           | Inr trial_fitness \<Rightarrow>
               if trial_fitness < fitness st ! i
               then Inr \<lparr>population = (population st)[i := trial],
                         fitness = (fitness st)[i := trial_fitness],
                         scored = scored st @ [trial_fitness]\<rparr>
               else Inr (st\<lparr>scored := scored st @ [trial_fitness]\<rparr>)))"

text \<open>The inner loop \<open>for i in range(pop_size)\<close>.\<close>

fun de_sweep :: "de_config \<Rightarrow> (nat \<Rightarrow> de_draws) \<Rightarrow> nat list \<Rightarrow> de_state \<Rightarrow> de_state result" where
  "de_sweep cfg ds [] st = Inr st"
| "de_sweep cfg ds (i # is) st =
     (case de_step cfg (ds i) i st of
        Inl e \<Rightarrow> Inl e
      | Inr st' \<Rightarrow> de_sweep cfg ds is st')"

text \<open>
  One iteration of the outer loop; the progress line calls \<open>min(fitness)\<close>, a
  ValueError on an empty list.
\<close>

definition de_generation :: "de_config \<Rightarrow> (nat \<Rightarrow> de_draws) \<Rightarrow> de_state \<Rightarrow> de_state result" where
  "de_generation cfg ds st =
     (case de_sweep cfg ds [0..<pop_size cfg] st of
        Inl e \<Rightarrow> Inl e
      | Inr st' \<Rightarrow>
          if fitness st' = [] then Inl (ValueError, length (scored st')) else Inr st')"

text \<open>The state after \<open>n\<close> iterations of the outer loop.\<close>

fun de_generations :: "de_config \<Rightarrow> de_random \<Rightarrow> nat \<Rightarrow> de_state result" where
  "de_generations cfg rnd 0 = de_init cfg rnd"
| "de_generations cfg rnd (Suc n) =
     (case de_generations cfg rnd n of
        Inl e \<Rightarrow> Inl e
      | Inr st \<Rightarrow> de_generation cfg (step_draws rnd n) st)"

text \<open>\<open>np.argmin\<close>: the first index of the least entry.\<close>

definition argmin :: "real list \<Rightarrow> nat" where
  "argmin xs = length (takeWhile (\<lambda>x. x \<noteq> min_list xs) xs)"

definition differential_evolution :: "de_config \<Rightarrow> de_random \<Rightarrow> (vec \<times> real) result" where
  "differential_evolution cfg rnd =
     (case de_generations cfg rnd (max_iter cfg) of
        Inl e \<Rightarrow> Inl e
      | Inr st \<Rightarrow>
          if fitness st = [] then Inl (ValueError, length (scored st))
          else let best_index = argmin (fitness st)
               in Inr (population st ! best_index, fitness st ! best_index))"

section \<open>The telemetry-driven optimizer\<close>

subsection \<open>Telemetry\<close>

text \<open>
  One HTTP attempt of \<open>prometheus_query\<close> either raises (a network error, a bad
  status code, a body that is not the expected JSON), or answers with a status other than
  "success", or answers with the list of results. An entry of the list is the float
  \<open>float(entry["value"][1])\<close>, which is a number, an infinity or NaN, or it is
  \<open>None\<close> when reading it raises.
\<close>

datatype attempt = Raises | Not_success | Success "pyfloat option list"

datatype metric_query = Bd_q | Cpu_q | Mem_q

text \<open>The loop \<open>for attempt in range(3)\<close>: the first successful answer, else \<open>None\<close>.\<close>

fun query_attempts :: "(nat \<Rightarrow> attempt) \<Rightarrow> nat list \<Rightarrow> pyfloat option list option" where
  "query_attempts resp [] = None"
| "query_attempts resp (a # as) =
     (case resp a of
        Success result \<Rightarrow> Some result
      | _ \<Rightarrow> query_attempts resp as)"

definition prometheus_query :: "(nat \<Rightarrow> attempt) \<Rightarrow> pyfloat option list option" where
  "prometheus_query resp = query_attempts resp [0..<3]"

text \<open>
  \<open>sum(vals) / len(vals)\<close>: \<open>sum\<close> adds the samples to 0 from left to
  right.
\<close>

definition get_metric_scalar :: "(nat \<Rightarrow> attempt) \<Rightarrow> pyfloat option" where
  "get_metric_scalar resp =
     (case prometheus_query resp of
        None \<Rightarrow> None
      | Some res \<Rightarrow>
          if res = [] then None
          else let vals = List.map_filter id res
               in if vals = [] then None
                  else Some (fl_div_by (foldl fl_add (Num 0) vals) (real (length vals))))"

text \<open>
  \<open>x or d\<close> on an optional float: \<open>None\<close> and \<open>0.0\<close> are falsy;
  the infinities and NaN are truthy, and are kept.
\<close>

definition py_or :: "pyfloat option \<Rightarrow> pyfloat \<Rightarrow> pyfloat" where
  "py_or x d = (case x of None \<Rightarrow> d | Some v \<Rightarrow> if v = Num 0 then d else v)"

text \<open>The field \<open>cpu_usage\<close> is the key "cpu" of the metrics dictionary.\<close>

record metrics =
  build_duration :: pyfloat
  cpu_usage :: pyfloat
  memory :: pyfloat

definition fetch_current_metrics :: "(metric_query \<Rightarrow> nat \<Rightarrow> attempt) \<Rightarrow> metrics" where
  "fetch_current_metrics prom =
     (let build_dur = py_or (get_metric_scalar (prom Bd_q)) (Num 300);
          cpu = py_or (get_metric_scalar (prom Cpu_q)) (Num 0.5);
          mem = py_or (get_metric_scalar (prom Mem_q)) (Num 0)
      in \<lparr>build_duration = build_dur, cpu_usage = cpu, memory = mem\<rparr>)"

subsection \<open>Objective\<close>

text \<open>
  \<open>normalize\<close> of the source; the name is taken by a constant of the library. The
  value is a metric, so any float; \<open>lo\<close> and \<open>hi\<close> are numbers (the
  program passes its literal historical ranges).
\<close>

definition normalize_val :: "pyfloat \<Rightarrow> real \<Rightarrow> real \<Rightarrow> pyfloat" where
  "normalize_val val lo hi =
     (if hi = lo then Num 0 else fl_div_by (fl_sub val (Num lo)) (hi - lo))"

record hist_ranges =
  hist_build_duration :: "real \<times> real"
  hist_cpu :: "real \<times> real"

text \<open>
  The module's globals: the weights read from the environment with \<open>float()\<close>,
  the search space, the population size and the number of iterations.
\<close>

record space =
  space_replicas :: "int \<times> int"
  space_cpu_request :: "real \<times> real"
  space_concurrency :: "int \<times> int"

record mbo_globals =
  ALPHA :: pyfloat
  BETA :: pyfloat
  SPACE :: space
  POP_SIZE :: nat
  MAX_ITERS :: nat

definition module_globals :: "pyfloat \<Rightarrow> pyfloat \<Rightarrow> mbo_globals" where
  "module_globals alpha beta =
     \<lparr>ALPHA = alpha, BETA = beta,
      SPACE = \<lparr>space_replicas = (1, 4), space_cpu_request = (0.1, 0.5),
               space_concurrency = (1, 4)\<rparr>,
      POP_SIZE = 8, MAX_ITERS = 12\<rparr>"

definition objective_from_metrics :: "mbo_globals \<Rightarrow> metrics \<Rightarrow> hist_ranges \<Rightarrow> pyfloat" where
  "objective_from_metrics g m hr =
     (let dur_n = normalize_val (build_duration m) (fst (hist_build_duration hr))
                    (snd (hist_build_duration hr));
          cpu_n = normalize_val (cpu_usage m) (fst (hist_cpu hr)) (snd (hist_cpu hr))
      in fl_add (fl_mul (ALPHA g) dur_n) (fl_mul (BETA g) cpu_n))"

subsection \<open>The optimization loop\<close>

record individual =
  replicas :: int
  cpu :: real
  concurrency :: int

text \<open>An entry of \<open>evaluated\<close>: the individual, its score, and the metrics behind it.\<close>

type_synonym entry = "individual \<times> pyfloat \<times> metrics"

definition score :: "entry \<Rightarrow> pyfloat" where
  "score e = fst (snd e)"

text \<open>
  The world outside: whether \<open>k8s_client()\<close> returns a client, whether the call of
  \<open>patch_deployment_params\<close> of evaluation \<open>n\<close> returns (it raises otherwise, and
  nothing catches it), and what attempt \<open>a\<close> of query \<open>q\<close> meets during evaluation
  \<open>n\<close>.
\<close>

record mbo_env =
  client_ok :: bool
  patch_ok :: "nat \<Rightarrow> bool"
  prometheus :: "nat \<Rightarrow> metric_query \<Rightarrow> nat \<Rightarrow> attempt"

text \<open>
  The draws: for individual \<open>p\<close> of the initial population, and for member \<open>k\<close> of
  iteration \<open>it\<close>.
\<close>

record mbo_random =
  init_replicas :: "nat \<Rightarrow> nat"
  init_cpu :: "nat \<Rightarrow> real"
  init_concurrency :: "nat \<Rightarrow> nat"
  choice_replicas :: "nat \<Rightarrow> nat \<Rightarrow> nat"
  jitter_cpu :: "nat \<Rightarrow> nat \<Rightarrow> real"
  choice_concurrency :: "nat \<Rightarrow> nat \<Rightarrow> nat"

text \<open>\<open>random.randint(a, b)\<close>: a ValueError on an empty range.\<close>

definition randint :: "int \<Rightarrow> int \<Rightarrow> nat \<Rightarrow> error + int" where
  "randint a b r = (if b < a then Inl ValueError else Inr (a + int (r mod nat (b - a + 1))))"

text \<open>\<open>random.choice([-1, 0, 1])\<close>.\<close>

definition choice3 :: "nat \<Rightarrow> int" where
  "choice3 r = [- 1, 0, 1] ! (r mod 3)"

text \<open>\<open>max(lo, min(hi, x))\<close>, as lines 135 to 140 write it for each of the three fields.\<close>

definition clamp_to :: "'a::linorder \<Rightarrow> 'a \<Rightarrow> 'a \<Rightarrow> 'a" where
  "clamp_to lo hi x = max lo (min hi x)"

definition init_individual :: "space \<Rightarrow> mbo_random \<Rightarrow> nat \<Rightarrow> error + individual" where
  "init_individual sp rnd p =
     (case randint (fst (space_replicas sp)) (snd (space_replicas sp)) (init_replicas rnd p) of
        Inl e \<Rightarrow> Inl e
      | Inr r \<Rightarrow>
          let c = uniform (fst (space_cpu_request sp)) (snd (space_cpu_request sp)) (init_cpu rnd p)
          in (case randint (fst (space_concurrency sp)) (snd (space_concurrency sp))
                     (init_concurrency rnd p) of
                Inl e \<Rightarrow> Inl e
              | Inr k \<Rightarrow> Inr \<lparr>replicas = r, cpu = c, concurrency = k\<rparr>))"

fun init_pop :: "space \<Rightarrow> mbo_random \<Rightarrow> nat list \<Rightarrow> error + individual list" where
  "init_pop sp rnd [] = Inr []"
| "init_pop sp rnd (p # ps) =
     (case init_individual sp rnd p of
        Inl e \<Rightarrow> Inl e
      | Inr ind \<Rightarrow>
          (case init_pop sp rnd ps of
             Inl e \<Rightarrow> Inl e
           | Inr rest \<Rightarrow> Inr (ind # rest)))"

text \<open>
  Lines 118 to 124 and 144 to 150: each individual is applied to the cluster and scored,
  one after the other; \<open>n\<close> counts the evaluations completed so far in the run.
\<close>

fun eval_pop :: "mbo_globals \<Rightarrow> hist_ranges \<Rightarrow> mbo_env \<Rightarrow> nat \<Rightarrow> individual list \<Rightarrow> entry list
    \<Rightarrow> entry list result" where
  "eval_pop g hr env n [] acc = Inr acc"
| "eval_pop g hr env n (ind # rest) acc =
     (if patch_ok env n
      then let m = fetch_current_metrics (prometheus env n);
               sc = objective_from_metrics g m hr
           in eval_pop g hr env (Suc n) rest (acc @ [(ind, sc, m)])
      else Inl (ApiException, n))"

text \<open>
  \<open>min(evaluated, key=lambda x: x[1])\<close>: \<open>min\<close> starts from the first
  entry and takes a later one when its key is \<open><\<close> the key held. Without NaN
  that is the first entry of least score.
\<close>

fun min_by_score :: "entry list \<Rightarrow> error + entry" where
  "min_by_score [] = Inl ValueError"
| "min_by_score (e # es) = Inr (fold (\<lambda>x b. if fl_lt (score x) (score b) then x else b) es e)"

text \<open>
  The state of the loop: \<open>evaluated\<close>, \<open>best\<close>, and every entry scored so far in the
  run, in order (a log the source does not keep).
\<close>

record mbo_state =
  evaluated :: "entry list"
  best :: entry
  history :: "entry list"

definition mbo_init :: "mbo_globals \<Rightarrow> hist_ranges \<Rightarrow> mbo_env \<Rightarrow> mbo_random \<Rightarrow> mbo_state result" where
  "mbo_init g hr env rnd =
     (if \<not> client_ok env then Inl (ApiException, 0)
      else case init_pop (SPACE g) rnd [0..<POP_SIZE g] of
             Inl e \<Rightarrow> Inl (e, 0)
           | Inr pop \<Rightarrow>
               (case eval_pop g hr env 0 pop [] of
                  Inl e \<Rightarrow> Inl e
                | Inr ev \<Rightarrow>
                    (case min_by_score ev of
                       Inl e \<Rightarrow> Inl (e, length ev)
                     | Inr b \<Rightarrow> Inr \<lparr>evaluated = ev, best = b, history = ev\<rparr>)))"

text \<open>Lines 134 to 141: the offspring of member \<open>k\<close> in iteration \<open>it\<close>.\<close>

definition perturb :: "space \<Rightarrow> mbo_random \<Rightarrow> nat \<Rightarrow> nat \<Rightarrow> individual \<Rightarrow> individual" where
  "perturb sp rnd it k ind =
     \<lparr>replicas = clamp_to (fst (space_replicas sp)) (snd (space_replicas sp))
                  (replicas ind + choice3 (choice_replicas rnd it k)),
      cpu = clamp_to (fst (space_cpu_request sp)) (snd (space_cpu_request sp))
              (cpu ind * (1 + uniform (- 0.2) 0.2 (jitter_cpu rnd it k))),
      concurrency = clamp_to (fst (space_concurrency sp)) (snd (space_concurrency sp))
                      (concurrency ind + choice3 (choice_concurrency rnd it k))\<rparr>"

definition new_pop :: "space \<Rightarrow> mbo_random \<Rightarrow> nat \<Rightarrow> entry list \<Rightarrow> individual list" where
  "new_pop sp rnd it ev = map (\<lambda>k. perturb sp rnd it k (fst (ev ! k))) [0..<length ev]"

text \<open>Lines 152 and 153: merge, and sort by score with \<open>list.sort\<close>.\<close>

definition combined_sorted :: "entry list \<Rightarrow> entry list \<Rightarrow> entry list" where
  "combined_sorted ev new_ev = list_sort score (ev @ new_ev)"

definition mbo_generation :: "mbo_globals \<Rightarrow> hist_ranges \<Rightarrow> mbo_env \<Rightarrow> mbo_random \<Rightarrow> nat \<Rightarrow> mbo_state
    \<Rightarrow> mbo_state result" where
  "mbo_generation g hr env rnd it st =
     (case eval_pop g hr env (length (history st)) (new_pop (SPACE g) rnd it (evaluated st)) [] of
        Inl e \<Rightarrow> Inl e
      | Inr new_evaluated \<Rightarrow>
          let ev = take (POP_SIZE g) (combined_sorted (evaluated st) new_evaluated);
              hist = history st @ new_evaluated
          in (case ev of
                [] \<Rightarrow> Inl (IndexError, length hist)
              | e0 # _ \<Rightarrow>
                  Inr \<lparr>evaluated = ev,
                       best = (if fl_lt (score e0) (score (best st)) then e0 else best st),
                       history = hist\<rparr>))"

fun mbo_generations :: "mbo_globals \<Rightarrow> hist_ranges \<Rightarrow> mbo_env \<Rightarrow> mbo_random \<Rightarrow> nat
    \<Rightarrow> mbo_state result" where
  "mbo_generations g hr env rnd 0 = mbo_init g hr env rnd"
| "mbo_generations g hr env rnd (Suc it) =
     (case mbo_generations g hr env rnd it of
        Inl e \<Rightarrow> Inl e
      | Inr st \<Rightarrow> mbo_generation g hr env rnd it st)"

text \<open>
  \<open>mbo_optimize\<close>; the historical ranges are its local constant. The push of the final
  score to the gateway is inside a \<open>try\<close> and changes nothing that is returned.
\<close>

definition the_hist_ranges :: hist_ranges where
  "the_hist_ranges = \<lparr>hist_build_duration = (50, 900), hist_cpu = (0.01, 2.0)\<rparr>"

definition mbo_optimize :: "mbo_globals \<Rightarrow> mbo_env \<Rightarrow> mbo_random \<Rightarrow> entry result" where
  "mbo_optimize g env rnd =
     (case mbo_generations g the_hist_ranges env rnd (MAX_ITERS g) of
        Inl e \<Rightarrow> Inl e
      | Inr st \<Rightarrow> Inr (best st))"

section \<open>Invariants\<close>

text \<open>
  What holds of the state of a differential-evolution run after the initial scoring and
  after every pass: the population has its configured size, every fitness entry is the
  score of the individual at the same index, every fitness entry is in the log, and no
  logged score is below all fitness entries.
\<close>

definition de_inv :: "de_config \<Rightarrow> de_state \<Rightarrow> bool" where
  "de_inv cfg st \<longleftrightarrow>
     length (population st) = pop_size cfg
     \<and> list_all2 (\<lambda>ind s. evaluate_cicd ind = Inr s) (population st) (fitness st)
     \<and> set (fitness st) \<subseteq> set (scored st)
     \<and> (\<forall>s\<in>set (scored st). \<exists>f\<in>set (fitness st). f \<le> s)"

text \<open>
  What holds of the state of the telemetry-driven loop: the population has its configured
  size, its entries are in the log, \<open>best\<close> is an entry of the log, and, when no
  score in the log is NaN, one of least score. \<open>entry_at\<close> is the entry that
  evaluation \<open>n\<close> appends for an individual.
\<close>

definition no_nan :: "entry list \<Rightarrow> bool" where
  "no_nan es \<longleftrightarrow> list_all (\<lambda>e. score e \<noteq> NaN) es"

definition mbo_inv :: "mbo_globals \<Rightarrow> mbo_state \<Rightarrow> bool" where
  "mbo_inv g st \<longleftrightarrow>
     length (evaluated st) = POP_SIZE g \<and> 0 < POP_SIZE g
     \<and> set (evaluated st) \<subseteq> set (history st)
     \<and> best st \<in> set (history st)
     \<and> (no_nan (history st) \<longrightarrow> (\<forall>e\<in>set (history st). fl_le (score (best st)) (score e)))"

definition entry_at :: "mbo_globals \<Rightarrow> hist_ranges \<Rightarrow> mbo_env \<Rightarrow> nat \<Rightarrow> individual \<Rightarrow> entry" where
  "entry_at g hr env n ind =
     (ind, objective_from_metrics g (fetch_current_metrics (prometheus env n)) hr,
      fetch_current_metrics (prometheus env n))"

text \<open>
  What the proof that a run returns carries along: the population and the fitness list have
  the configured size, and every individual has four entries, the first one not below the
  lower bound of \<open>cpu\<close>.
\<close>

definition de_ok :: "de_config \<Rightarrow> de_state \<Rightarrow> bool" where
  "de_ok cfg st \<longleftrightarrow>
     length (population st) = pop_size cfg \<and> length (fitness st) = pop_size cfg
     \<and> (\<forall>ind\<in>set (population st). length ind = 4 \<and> fst (bounds cfg ! 0) \<le> ind ! 0)"

section \<open>Concrete runs\<close>

text \<open>
  The bounds of the module, and a run of \<open>differential_evolution\<close> with four
  individuals and one iteration, on fixed draws: \<open>random.uniform\<close> takes the
  value \<open>(p + j) / 8\<close> of \<open>random()\<close> for dimension \<open>j\<close> of
  individual \<open>p\<close>. \<open>small_cfg\<close> is the same call with \<open>pop_size=3\<close>.
\<close>

definition module_bounds :: "(real \<times> real) list" where
  "module_bounds = [(0.1, 2.0), (256, 4096), (1, 10), (1, 5)]"

definition demo_cfg :: de_config where
  "demo_cfg = \<lparr>bounds = module_bounds, max_iter = 1, pop_size = 4, F = 0.8, CR = 0.7\<rparr>"

definition small_cfg :: de_config where
  "small_cfg = \<lparr>bounds = module_bounds, max_iter = 1, pop_size = 3, F = 0.8, CR = 0.7\<rparr>"

definition demo_draws :: "nat \<Rightarrow> nat \<Rightarrow> de_draws" where
  "demo_draws it i = \<lparr>sample_picks = (it, i, 1), randint_R = i, random_cr = (\<lambda>j. real j / 4)\<rparr>"

definition demo_rnd :: de_random where
  "demo_rnd = \<lparr>init_u = (\<lambda>p j. real (p + j) / 8), step_draws = demo_draws\<rparr>"

text \<open>
  The state of that run after the initial scoring, after the first pass of the inner loop,
  and after the whole iteration.
\<close>

definition demo_st0 :: de_state where
  "demo_st0 = \<lparr>population = [[1 / 10, 736, 13 / 4, 5 / 2], [27 / 80, 1216, 35 / 8, 3],
       [23 / 40, 1696, 11 / 2, 7 / 2], [13 / 16, 2176, 53 / 8, 4]],
     fitness = [5007467 / 1000, 80604233 / 54000, 2542872 / 2875, 16484497 / 26000],
     scored = [5007467 / 1000, 80604233 / 54000, 2542872 / 2875, 16484497 / 26000]\<rparr>"

definition demo_accepted :: de_state where
  "demo_accepted = \<lparr>population = [[59 / 400, 832, 3, 2], [27 / 80, 1216, 35 / 8, 3],
         [23 / 40, 1696, 11 / 2, 7 / 2], [13 / 16, 2176, 53 / 8, 4]],
     fitness = [200442441 / 59000, 80604233 / 54000, 2542872 / 2875, 16484497 / 26000],
     scored = [5007467 / 1000, 80604233 / 54000, 2542872 / 2875, 16484497 / 26000,
       200442441 / 59000]\<rparr>"

definition demo_st1 :: de_state where
  "demo_st1 = \<lparr>population = [[59 / 400, 832, 3, 2], [27 / 80, 1216, 4, 3],
         [23 / 40, 1696, 11 / 2, 7 / 2], [13 / 16, 2176, 53 / 8, 4]],
     fitness = [200442441 / 59000, 40286929 / 27000, 2542872 / 2875, 16484497 / 26000],
     scored = [5007467 / 1000, 80604233 / 54000, 2542872 / 2875, 16484497 / 26000,
       200442441 / 59000, 40286929 / 27000, 1250633 / 250, 40286929 / 27000]\<rparr>"

text \<open>
  Draws under which every call of \<open>random.uniform\<close> returns the lower bound: the
  four initial individuals are equal, and so is every trial.
\<close>

definition tie_rnd :: de_random where
  "tie_rnd = \<lparr>init_u = (\<lambda>p j. 0), step_draws = demo_draws\<rparr>"

definition tie_st0 :: de_state where
  "tie_st0 = \<lparr>population = replicate 4 [1 / 10, 256, 1, 1],
     fitness = replicate 4 (1250633 / 250), scored = replicate 4 (1250633 / 250)\<rparr>"

text \<open>
  A run of \<open>mbo_optimize\<close> with \<open>POP_SIZE = 2\<close> and \<open>MAX_ITERS = 1\<close>,
  on fixed draws, against a cluster whose calls all return. In \<open>demo_env\<close> the third
  attempt of every query answers, with values that fall from one evaluation to the next; in
  \<open>failing_env\<close> every attempt of every query raises, and in
  \<open>patch_failing_env\<close> moreover the fourth call of
  \<open>patch_deployment_params\<close> raises.
\<close>

definition demo_globals :: mbo_globals where
  "demo_globals = (module_globals (Num 0.7) (Num 0.3))\<lparr>POP_SIZE := 2, MAX_ITERS := 1\<rparr>"

definition demo_mbo_rnd :: mbo_random where
  "demo_mbo_rnd = \<lparr>init_replicas = (\<lambda>p. p), init_cpu = (\<lambda>p. real p / 4),
     init_concurrency = (\<lambda>p. p + 1), choice_replicas = (\<lambda>it k. it + k),
     jitter_cpu = (\<lambda>it k. 1 / 2), choice_concurrency = (\<lambda>it k. k)\<rparr>"

definition demo_env :: mbo_env where
  "demo_env = \<lparr>client_ok = True, patch_ok = (\<lambda>n. True),
     prometheus = (\<lambda>n q a. if a = 2
                           then Success [Some (Num (100 - real n * 10)), None, Some (Num 100)]
                           else Not_success)\<rparr>"

definition failing_env :: mbo_env where
  "failing_env = \<lparr>client_ok = True, patch_ok = (\<lambda>n. True), prometheus = (\<lambda>n q a. Raises)\<rparr>"

definition patch_failing_env :: mbo_env where
  "patch_failing_env =
     \<lparr>client_ok = True, patch_ok = (\<lambda>n. n \<noteq> 3), prometheus = (\<lambda>n q a. Raises)\<rparr>"

text \<open>The four entries that run scores, and its state before and after the iteration.\<close>

definition demo_e100 :: entry where
  "demo_e100 = (\<lparr>replicas = 1, cpu = 1 / 10, concurrency = 2\<rparr>, Num (255671 / 16915),
     \<lparr>build_duration = Num 100, cpu_usage = Num 100, memory = Num 100\<rparr>)"

definition demo_e95 :: entry where
  "demo_e95 = (\<lparr>replicas = 2, cpu = 1 / 5, concurrency = 3\<rparr>, Num (4857027 / 338300),
     \<lparr>build_duration = Num 95, cpu_usage = Num 95, memory = Num 95\<rparr>)"

definition demo_e90 :: entry where
  "demo_e90 = (\<lparr>replicas = 1, cpu = 1 / 10, concurrency = 1\<rparr>, Num (2300317 / 169150),
     \<lparr>build_duration = Num 90, cpu_usage = Num 90, memory = Num 90\<rparr>)"

definition demo_e85 :: entry where
  "demo_e85 = (\<lparr>replicas = 2, cpu = 1 / 5, concurrency = 3\<rparr>, Num (4344241 / 338300),
     \<lparr>build_duration = Num 85, cpu_usage = Num 85, memory = Num 85\<rparr>)"

definition demo_mbo0 :: mbo_state where
  "demo_mbo0 = \<lparr>evaluated = [demo_e100, demo_e95], best = demo_e95,
     history = [demo_e100, demo_e95]\<rparr>"

definition demo_mbo1 :: mbo_state where
  "demo_mbo1 = \<lparr>evaluated = [demo_e85, demo_e90], best = demo_e85,
     history = [demo_e100, demo_e95, demo_e90, demo_e85]\<rparr>"

text \<open>
  The same run against a metrics server that answers every query at once, and whose sample
  of the build duration is the text \<open>NaN\<close> in every second evaluation; the sample
  of the cpu usage is 1 throughout. The four entries that run scores, and its state before
  and after the iteration.
\<close>

definition nan_env :: mbo_env where
  "nan_env = \<lparr>client_ok = True, patch_ok = (\<lambda>n. True),
     prometheus = (\<lambda>n q a. case q of
        Bd_q \<Rightarrow> if odd n then Success [Some NaN] else Success [Some (Num (475 - 100 * real n))]
      | Cpu_q \<Rightarrow> Success [Some (Num 1)]
      | Mem_q \<Rightarrow> Success [Some (Num 1)])\<rparr>"

definition nan_e0 :: entry where
  "nan_e0 = (\<lparr>replicas = 1, cpu = 1 / 10, concurrency = 2\<rparr>, Num (1987 / 3980),
     \<lparr>build_duration = Num 475, cpu_usage = Num 1, memory = Num 1\<rparr>)"

definition nan_e1 :: entry where
  "nan_e1 = (\<lparr>replicas = 2, cpu = 1 / 5, concurrency = 3\<rparr>, NaN,
     \<lparr>build_duration = NaN, cpu_usage = Num 1, memory = Num 1\<rparr>)"

definition nan_e2 :: entry where
  "nan_e2 = (\<lparr>replicas = 1, cpu = 1 / 10, concurrency = 1\<rparr>, Num (4527 / 13532),
     \<lparr>build_duration = Num 275, cpu_usage = Num 1, memory = Num 1\<rparr>)"

definition nan_e3 :: entry where
  "nan_e3 = (\<lparr>replicas = 2, cpu = 1 / 5, concurrency = 3\<rparr>, NaN,
     \<lparr>build_duration = NaN, cpu_usage = Num 1, memory = Num 1\<rparr>)"

definition nan_mbo0 :: mbo_state where
  "nan_mbo0 = \<lparr>evaluated = [nan_e0, nan_e1], best = nan_e0, history = [nan_e0, nan_e1]\<rparr>"

definition nan_mbo1 :: mbo_state where
  "nan_mbo1 = \<lparr>evaluated = [nan_e0, nan_e1], best = nan_e0,
     history = [nan_e0, nan_e1, nan_e2, nan_e3]\<rparr>"


section \<open>Lemmas\<close>

subsection \<open>Rounding, clipping and the least entry\<close>



lemma np_clip_idem: "np_clip (np_clip x lo hi) lo hi = np_clip x lo hi"
  by (simp add: np_clip_def min_def max_def)

lemma np_clip_bounds: "lo \<le> hi \<Longrightarrow> lo \<le> np_clip x lo hi \<and> np_clip x lo hi \<le> hi"
  by (simp add: np_clip_def)

lemma np_clip_lower: "lo \<le> hi \<Longrightarrow> lo \<le> np_clip x lo hi"
  by (simp add: np_clip_def)

lemma uniform_lower: "a \<le> b \<Longrightarrow> 0 \<le> u \<Longrightarrow> a \<le> uniform a b u"
  by (simp add: uniform_def)

lemma takeWhile_hit:
  "m \<in> set xs \<Longrightarrow> length (takeWhile (\<lambda>x. x \<noteq> m) xs) < length xs
     \<and> xs ! length (takeWhile (\<lambda>x. x \<noteq> m) xs) = m"
  by (induction xs) auto

lemma argmin_correct:
  assumes "xs \<noteq> []"
  shows "argmin xs < length xs \<and> xs ! argmin xs = min_list xs"
proof -
  from assms have "min_list xs \<in> set xs" by (simp add: min_list_Min)
  from takeWhile_hit [OF this] show ?thesis by (simp add: argmin_def)
qed

subsection \<open>Comparisons of floats, and \<open>list.sort\<close>\<close>

text \<open>
  \<open>list.sort\<close> always returns a permutation of its list; when no key is NaN the
  result is sorted by key.
\<close>

lemma fl_le_iff: "x \<noteq> NaN \<Longrightarrow> y \<noteq> NaN \<Longrightarrow> fl_le x y \<longleftrightarrow> \<not> fl_lt y x"
  by (cases x; cases y) auto

lemma fl_le_trans: "fl_le x y \<Longrightarrow> fl_le y z \<Longrightarrow> fl_le x z"
  by (cases x; cases y; cases z) auto

lemma fl_lt_le_trans: "fl_lt x y \<Longrightarrow> fl_le y z \<Longrightarrow> fl_lt x z"
  by (cases x; cases y; cases z) auto

lemma fl_lt_imp_le: "fl_lt x y \<Longrightarrow> fl_le x y"
  by (cases x; cases y) auto

lemma fl_le_refl: "x \<noteq> NaN \<Longrightarrow> fl_le x x"
  by (cases x) auto

lemma fl_lt_irrefl: "\<not> fl_lt x x"
  by (cases x) auto

lemma fl_lt_asym: "fl_lt x y \<Longrightarrow> \<not> fl_lt y x"
  by (cases x; cases y) auto

lemma mset_binary_insert: "mset (binary_insert lt acc p) = add_mset p (mset acc)"
proof -
  have "mset (take l acc @ p # drop l acc) = add_mset p (mset (take l acc @ drop l acc))" for l
    by (simp del: append_take_drop_id)
  then show ?thesis by (simp add: binary_insert_def Let_def)
qed

lemma mset_foldl_binary_insert:
  "mset (foldl (binary_insert lt) run rest) = mset run + mset rest"
  by (induction rest arbitrary: run) (simp_all add: mset_binary_insert)

lemma mset_list_sort: "mset (list_sort key xs) = mset xs"
proof -
  have "mset (take n xs) + mset (drop n xs) = mset xs" for n
    by (metis append_take_drop_id mset_append)
  then show ?thesis
    by (simp add: list_sort_def Let_def mset_foldl_binary_insert)
qed

lemma binary_search_spec:
  "sorted_wrt (\<lambda>a b. fl_le (key a) (key b)) xs
    \<Longrightarrow> \<forall>x\<in>set xs. key x \<noteq> NaN \<Longrightarrow> key p \<noteq> NaN
    \<Longrightarrow> l \<le> r \<Longrightarrow> r \<le> length xs
    \<Longrightarrow> \<forall>i<l. fl_le (key (xs ! i)) (key p)
    \<Longrightarrow> \<forall>i. r \<le> i \<and> i < length xs \<longrightarrow> fl_lt (key p) (key (xs ! i))
    \<Longrightarrow> binary_search (\<lambda>a b. fl_lt (key a) (key b)) p xs l r \<le> length xs
      \<and> (\<forall>i<binary_search (\<lambda>a b. fl_lt (key a) (key b)) p xs l r. fl_le (key (xs ! i)) (key p))
      \<and> (\<forall>i. binary_search (\<lambda>a b. fl_lt (key a) (key b)) p xs l r \<le> i \<and> i < length xs
            \<longrightarrow> fl_lt (key p) (key (xs ! i)))"
proof (induction "\<lambda>a b. fl_lt (key a) (key b)" p xs l r rule: binary_search.induct)
  case (1 pivot xs l r)
  let ?lt = "\<lambda>a b. fl_lt (key a) (key b)"
  let ?m = "l + (r - l) div 2"
  show ?case
  proof (cases "l < r")
    case False
    then have "binary_search ?lt pivot xs l r = l" by (subst binary_search.simps) simp
    moreover from False "1.prems" have "l = r" by simp
    ultimately show ?thesis using "1.prems" by simp
  next
    case True
    then have m: "l \<le> ?m" "?m < r" by auto
    with "1.prems" have mlen: "?m < length xs" by simp
    show ?thesis
    proof (cases "fl_lt (key pivot) (key (xs ! ?m))")
      case lt: True
      have hi: "\<forall>i. ?m \<le> i \<and> i < length xs \<longrightarrow> fl_lt (key pivot) (key (xs ! i))"
      proof (intro allI impI)
        fix i assume i: "?m \<le> i \<and> i < length xs"
        show "fl_lt (key pivot) (key (xs ! i))"
        proof (cases "i = ?m")
          case True with lt show ?thesis by simp
        next
          case False
          with i have "?m < i" by simp
          with i "1.prems"(1) have "fl_le (key (xs ! ?m)) (key (xs ! i))"
            by (simp add: sorted_wrt_iff_nth_less)
          with lt show ?thesis by (rule fl_lt_le_trans)
        qed
      qed
      from True lt have eq: "binary_search ?lt pivot xs l r = binary_search ?lt pivot xs l ?m"
        by (subst binary_search.simps) simp
      from "1.hyps"(1) [OF True lt "1.prems"(1,2,3) m(1) _ "1.prems"(6) hi] mlen
      show ?thesis unfolding eq by simp
    next
      case nlt: False
      from mlen "1.prems"(2) have nn: "key (xs ! ?m) \<noteq> NaN" by simp
      with nlt "1.prems"(3) have le: "fl_le (key (xs ! ?m)) (key pivot)"
        by (simp add: fl_le_iff)
      have lo: "\<forall>i<?m + 1. fl_le (key (xs ! i)) (key pivot)"
      proof (intro allI impI)
        fix i assume i: "i < ?m + 1"
        show "fl_le (key (xs ! i)) (key pivot)"
        proof (cases "i = ?m")
          case True with le show ?thesis by simp
        next
          case False
          with i have "i < ?m" by simp
          with mlen "1.prems"(1) have "fl_le (key (xs ! i)) (key (xs ! ?m))"
            by (simp add: sorted_wrt_iff_nth_less)
          then show ?thesis using le by (rule fl_le_trans)
        qed
      qed
      from True nlt have eq: "binary_search ?lt pivot xs l r = binary_search ?lt pivot xs (?m + 1) r"
        by (subst binary_search.simps) simp
      from m have "?m + 1 \<le> r" by simp
      from "1.hyps"(2) [OF True nlt "1.prems"(1,2,3) this "1.prems"(5) lo "1.prems"(7)]
      show ?thesis unfolding eq by simp
    qed
  qed
qed

lemma sorted_binary_insert:
  assumes s: "sorted_wrt (\<lambda>a b. fl_le (key a) (key b)) acc"
    and nn: "\<forall>x\<in>set acc. key x \<noteq> NaN" and p: "key p \<noteq> NaN"
  shows "sorted_wrt (\<lambda>a b. fl_le (key a) (key b)) (binary_insert (\<lambda>a b. fl_lt (key a) (key b)) acc p)"
proof -
  let ?lt = "\<lambda>a b. fl_lt (key a) (key b)"
  let ?m = "binary_search ?lt p acc 0 (length acc)"
  have "\<forall>i. length acc \<le> i \<and> i < length acc \<longrightarrow> fl_lt (key p) (key (acc ! i))" by auto
  from binary_search_spec [OF s nn p _ _ _ this, of 0]
  have m: "?m \<le> length acc" and lo: "\<forall>i<?m. fl_le (key (acc ! i)) (key p)"
    and hi: "\<forall>i. ?m \<le> i \<and> i < length acc \<longrightarrow> fl_lt (key p) (key (acc ! i))"
    by simp_all
  have a: "\<forall>x\<in>set (take ?m acc). fl_le (key x) (key p)"
    using lo m by (auto simp: in_set_conv_nth)
  have b: "\<forall>y\<in>set (drop ?m acc). fl_le (key p) (key y)"
  proof
    fix y assume "y \<in> set (drop ?m acc)"
    then obtain j where "j < length acc - ?m" "y = acc ! (?m + j)"
      by (auto simp: in_set_conv_nth)
    with hi have "fl_lt (key p) (key y)" by simp
    then show "fl_le (key p) (key y)" by (rule fl_lt_imp_le)
  qed
  from s have "sorted_wrt (\<lambda>a b. fl_le (key a) (key b)) (take ?m acc @ drop ?m acc)" by simp
  then have "sorted_wrt (\<lambda>a b. fl_le (key a) (key b)) (take ?m acc @ p # drop ?m acc)"
    using a b by (simp add: sorted_wrt_append del: append_take_drop_id)
  then show ?thesis by (simp add: binary_insert_def Let_def)
qed

lemma sorted_foldl_binary_insert:
  "sorted_wrt (\<lambda>a b. fl_le (key a) (key b)) run \<Longrightarrow> \<forall>x\<in>set run. key x \<noteq> NaN
   \<Longrightarrow> \<forall>x\<in>set rest. key x \<noteq> NaN
   \<Longrightarrow> sorted_wrt (\<lambda>a b. fl_le (key a) (key b))
         (foldl (binary_insert (\<lambda>a b. fl_lt (key a) (key b))) run rest)"
proof (induction rest arbitrary: run)
  case Nil
  then show ?case by simp
next
  case (Cons p rest)
  let ?acc = "binary_insert (\<lambda>a b. fl_lt (key a) (key b)) run p"
  from Cons.prems have s: "sorted_wrt (\<lambda>a b. fl_le (key a) (key b)) ?acc"
    by (intro sorted_binary_insert) simp_all
  have "set_mset (mset ?acc) = insert p (set run)" by (simp add: mset_binary_insert)
  then have "set ?acc = insert p (set run)" by simp
  with Cons.prems have "\<forall>x\<in>set ?acc. key x \<noteq> NaN" by simp
  from Cons.IH [OF s this] Cons.prems(3) show ?case by simp
qed

lemma ascending_run_sorted:
  "\<forall>x\<in>set (prev # xs). key x \<noteq> NaN \<Longrightarrow>
   sorted_wrt (\<lambda>a b. fl_le (key a) (key b))
     (prev # take (ascending_run (\<lambda>a b. fl_lt (key a) (key b)) prev xs) xs)"
proof (induction xs arbitrary: prev)
  case Nil
  then show ?case by simp
next
  case (Cons x xs)
  show ?case
  proof (cases "fl_lt (key x) (key prev)")
    case True
    then show ?thesis by simp
  next
    case False
    let ?run = "take (ascending_run (\<lambda>a b. fl_lt (key a) (key b)) x xs) xs"
    from Cons.prems False have le: "fl_le (key prev) (key x)" by (simp add: fl_le_iff)
    from Cons.prems have s: "sorted_wrt (\<lambda>a b. fl_le (key a) (key b)) (x # ?run)"
      by (intro Cons.IH) simp
    then have "\<forall>y\<in>set ?run. fl_le (key x) (key y)" by simp
    with le have "\<forall>y\<in>set ?run. fl_le (key prev) (key y)" by (blast intro: fl_le_trans)
    with s le False show ?thesis by simp
  qed
qed

lemma descending_run_sorted:
  "sorted_wrt (\<lambda>a b. fl_le (key b) (key a))
     (prev # take (descending_run (\<lambda>a b. fl_lt (key a) (key b)) prev xs) xs)"
proof (induction xs arbitrary: prev)
  case Nil
  then show ?case by simp
next
  case (Cons x xs)
  show ?case
  proof (cases "fl_lt (key x) (key prev)")
    case False
    then show ?thesis by simp
  next
    case True
    let ?run = "take (descending_run (\<lambda>a b. fl_lt (key a) (key b)) x xs) xs"
    from True have le: "fl_le (key x) (key prev)" by (rule fl_lt_imp_le)
    have s: "sorted_wrt (\<lambda>a b. fl_le (key b) (key a)) (x # ?run)" by (rule Cons.IH)
    then have "\<forall>y\<in>set ?run. fl_le (key y) (key x)" by simp
    with le have "\<forall>y\<in>set ?run. fl_le (key y) (key prev)" by (blast intro: fl_le_trans)
    with s le True show ?thesis by simp
  qed
qed

lemma first_run_sorted:
  assumes "\<forall>x\<in>set xs. key x \<noteq> NaN"
  shows "sorted_wrt (\<lambda>a b. fl_le (key a) (key b))
     (if snd (count_run (\<lambda>a b. fl_lt (key a) (key b)) xs)
      then rev (take (fst (count_run (\<lambda>a b. fl_lt (key a) (key b)) xs)) xs)
      else take (fst (count_run (\<lambda>a b. fl_lt (key a) (key b)) xs)) xs)"
proof (cases xs)
  case Nil
  then show ?thesis by simp
next
  case (Cons x ys)
  show ?thesis
  proof (cases ys)
    case Nil
    with Cons show ?thesis by simp
  next
    case (Cons y rest)
    with \<open>xs = x # ys\<close> have xs: "xs = x # y # rest" by simp
    show ?thesis
    proof (cases "fl_lt (key y) (key x)")
      case True
      from descending_run_sorted [of key y rest]
      have "sorted_wrt (\<lambda>a b. fl_le (key b) (key a))
          (x # y # take (descending_run (\<lambda>a b. fl_lt (key a) (key b)) y rest) rest)"
        using True by (auto intro: fl_lt_imp_le fl_le_trans)
      then have "sorted_wrt (\<lambda>a b. fl_le (key a) (key b))
          (rev (x # y # take (descending_run (\<lambda>a b. fl_lt (key a) (key b)) y rest) rest))"
        unfolding sorted_wrt_rev .
      with True show ?thesis by (simp add: xs)
    next
      case False
      with assms have le: "fl_le (key x) (key y)" by (simp add: xs fl_le_iff)
      from assms have "sorted_wrt (\<lambda>a b. fl_le (key a) (key b))
          (y # take (ascending_run (\<lambda>a b. fl_lt (key a) (key b)) y rest) rest)"
        by (intro ascending_run_sorted) (simp add: xs)
      with le have "sorted_wrt (\<lambda>a b. fl_le (key a) (key b))
          (x # y # take (ascending_run (\<lambda>a b. fl_lt (key a) (key b)) y rest) rest)"
        by (auto intro: fl_le_trans)
      with False show ?thesis by (simp add: xs)
    qed
  qed
qed

lemma sorted_list_sort:
  assumes "\<forall>x\<in>set xs. key x \<noteq> NaN"
  shows "sorted_wrt (\<lambda>a b. fl_le (key a) (key b)) (list_sort key xs)"
proof (cases "length xs < 2")
  case True
  then have "xs = [] \<or> (\<exists>x. xs = [x])"
    by (cases xs) (auto simp: length_Suc_conv)
  then show ?thesis by (auto simp: list_sort_def)
next
  case False
  let ?lt = "\<lambda>a b. fl_lt (key a) (key b)"
  let ?n = "fst (count_run ?lt xs)"
  let ?run = "if snd (count_run ?lt xs) then rev (take ?n xs) else take ?n xs"
  have s: "sorted_wrt (\<lambda>a b. fl_le (key a) (key b)) ?run"
    using first_run_sorted [OF assms] .
  have r: "\<forall>x\<in>set ?run. key x \<noteq> NaN"
    using assms by (auto dest: in_set_takeD)
  have d: "\<forall>x\<in>set (drop ?n xs). key x \<noteq> NaN"
    using assms by (auto dest: in_set_dropD)
  from sorted_foldl_binary_insert [OF s r d] False show ?thesis
    by (simp add: list_sort_def Let_def)
qed

lemma length_list_sort: "length (list_sort key xs) = length xs"
  using mset_list_sort [of key xs] by (metis size_mset)

lemma set_list_sort: "set (list_sort key xs) = set xs"
  using mset_list_sort [of key xs] by (metis set_mset_mset)

lemma sorted_wrt_take_drop:
  assumes "sorted_wrt P ys"
  shows "\<forall>a\<in>set (take n ys). \<forall>b\<in>set (drop n ys). P a b"
proof -
  from assms have "sorted_wrt P (take n ys @ drop n ys)" by simp
  then show ?thesis by (simp only: sorted_wrt_append) blast
qed

lemma sorted_wrt_hd_least:
  assumes "sorted_wrt P ys" and "e \<in> set ys"
  shows "e = hd ys \<or> P (hd ys) e"
  using assms by (cases ys) auto

subsection \<open>Differential evolution\<close>

lemma eval_all_Inr:
  "eval_all pop acc = Inr fit \<Longrightarrow>
   \<exists>ss. fit = acc @ ss \<and> list_all2 (\<lambda>ind s. evaluate_cicd ind = Inr s) pop ss"
proof (induction pop arbitrary: acc)
  case Nil
  then show ?case by simp
next
  case (Cons ind rest)
  then obtain s where s: "evaluate_cicd ind = Inr s" and r: "eval_all rest (acc @ [s]) = Inr fit"
    by (auto split: sum.splits)
  from Cons.IH [OF r] obtain ss where "fit = (acc @ [s]) @ ss"
    and "list_all2 (\<lambda>ind s. evaluate_cicd ind = Inr s) rest ss" by blast
  with s show ?case by (intro exI [of _ "s # ss"]) simp
qed

lemma de_init_inv:
  assumes "de_init cfg rnd = Inr st"
  shows "de_inv cfg st"
proof -
  let ?pop = "init_population cfg (init_u rnd)"
  from assms obtain fit where fit: "eval_all ?pop [] = Inr fit"
    and st: "st = \<lparr>population = ?pop, fitness = fit, scored = fit\<rparr>"
    by (auto simp: de_init_def Let_def split: sum.splits)
  from eval_all_Inr [OF fit] have "list_all2 (\<lambda>ind s. evaluate_cicd ind = Inr s) ?pop fit"
    by simp
  moreover have "length ?pop = pop_size cfg" by (simp add: init_population_def)
  ultimately show ?thesis by (auto simp: de_inv_def st)
qed

lemma de_step_cases:
  assumes "de_step cfg d i st = Inr st'"
  obtains trial tf where "de_trial cfg d i (population st) = Inr trial"
    and "evaluate_cicd trial = Inr tf"
    and "scored st' = scored st @ [tf]"
    and "tf < fitness st ! i \<Longrightarrow>
           population st' = (population st)[i := trial] \<and> fitness st' = (fitness st)[i := tf]"
    and "\<not> tf < fitness st ! i \<Longrightarrow>
           population st' = population st \<and> fitness st' = fitness st"
  using assms by (auto simp: de_step_def split: sum.splits if_splits)

lemma de_step_inv:
  assumes inv: "de_inv cfg st" and i: "i < pop_size cfg" and step: "de_step cfg d i st = Inr st'"
  shows "de_inv cfg st' \<and> list_all2 (\<le>) (fitness st') (fitness st)"
proof -
  from step obtain trial tf where ev: "evaluate_cicd trial = Inr tf"
    and log: "scored st' = scored st @ [tf]"
    and acc: "tf < fitness st ! i \<Longrightarrow>
           population st' = (population st)[i := trial] \<and> fitness st' = (fitness st)[i := tf]"
    and rej: "\<not> tf < fitness st ! i \<Longrightarrow>
           population st' = population st \<and> fitness st' = fitness st"
    by (rule de_step_cases) blast
  from inv have len: "length (population st) = pop_size cfg" "length (fitness st) = pop_size cfg"
    and rel: "list_all2 (\<lambda>ind s. evaluate_cicd ind = Inr s) (population st) (fitness st)"
    and sub: "set (fitness st) \<subseteq> set (scored st)"
    and low: "\<forall>s\<in>set (scored st). \<exists>f\<in>set (fitness st). f \<le> s"
    by (auto simp: de_inv_def dest: list_all2_lengthD)
  show ?thesis
  proof (cases "tf < fitness st ! i")
    case False
    with rej have eq: "population st' = population st" "fitness st' = fitness st" by simp_all
    from i len have "fitness st ! i \<in> set (fitness st)" by simp
    with False have "\<exists>f\<in>set (fitness st). f \<le> tf" by (auto simp: not_less)
    with len rel sub low eq log show ?thesis
      by (auto simp: de_inv_def list_all2_same)
  next
    case True
    with acc have eq: "population st' = (population st)[i := trial]"
      "fitness st' = (fitness st)[i := tf]" by simp_all
    have rel': "list_all2 (\<lambda>ind s. evaluate_cicd ind = Inr s) (population st') (fitness st')"
      unfolding eq using rel ev by (rule list_all2_update_cong)
    have mono: "list_all2 (\<le>) (fitness st') (fitness st)"
      unfolding eq using True i len
      by (auto simp: list_all2_conv_all_nth nth_list_update)
    have tf_in: "tf \<in> set (fitness st')"
      unfolding eq using i len by (simp add: set_update_memI)
    have sub': "set (fitness st') \<subseteq> set (scored st')"
      unfolding eq log using sub set_update_subset_insert [of "fitness st" i tf] by auto
    have low': "\<forall>s\<in>set (scored st'). \<exists>f\<in>set (fitness st'). f \<le> s"
    proof
      fix s assume "s \<in> set (scored st')"
      then consider "s \<in> set (scored st)" | "s = tf" by (auto simp: log)
      then show "\<exists>f\<in>set (fitness st'). f \<le> s"
      proof cases
        case 1
        with low obtain f where "f \<in> set (fitness st)" "f \<le> s" by blast
        then obtain k where k: "k < length (fitness st)" "fitness st ! k = f"
          by (auto simp: in_set_conv_nth)
        with mono have "fitness st' ! k \<le> f"
          by (auto simp: list_all2_conv_all_nth)
        moreover from k mono have "fitness st' ! k \<in> set (fitness st')"
          by (auto simp: list_all2_conv_all_nth)
        ultimately show ?thesis using \<open>f \<le> s\<close> by (meson order_trans)
      next
        case 2
        with tf_in show ?thesis by auto
      qed
    qed
    from len rel' sub' low' mono eq show ?thesis by (simp add: de_inv_def)
  qed
qed

lemma de_sweep_inv:
  "de_inv cfg st \<Longrightarrow> \<forall>i\<in>set js. i < pop_size cfg \<Longrightarrow> de_sweep cfg ds js st = Inr st' \<Longrightarrow>
   de_inv cfg st' \<and> list_all2 (\<le>) (fitness st') (fitness st)
   \<and> length (scored st') = length (scored st) + length js"
proof (induction js arbitrary: st)
  case Nil
  then show ?case by (simp add: list_all2_same)
next
  case (Cons i js)
  from Cons.prems(3) obtain st1 where s1: "de_step cfg (ds i) i st = Inr st1"
    and s2: "de_sweep cfg ds js st1 = Inr st'"
    by (auto split: sum.splits)
  from Cons.prems(1,2) s1 have i1: "de_inv cfg st1" and m1: "list_all2 (\<le>) (fitness st1) (fitness st)"
    using de_step_inv [of cfg st i "ds i" st1] by simp_all
  from s1 have l1: "length (scored st1) = Suc (length (scored st))"
    by (rule de_step_cases) simp
  from Cons.IH [OF i1 _ s2] Cons.prems(2)
  have "de_inv cfg st'" and m2: "list_all2 (\<le>) (fitness st') (fitness st1)"
    and "length (scored st') = length (scored st1) + length js" by simp_all
  moreover from m2 m1 have "list_all2 (\<le>) (fitness st') (fitness st)"
    by (rule list_all2_trans [rotated]) simp
  ultimately show ?case using l1 by simp
qed

lemma de_generation_inv:
  assumes "de_inv cfg st" and "de_generation cfg ds st = Inr st'"
  shows "de_inv cfg st' \<and> list_all2 (\<le>) (fitness st') (fitness st)
   \<and> length (scored st') = length (scored st) + pop_size cfg \<and> fitness st' \<noteq> []"
proof -
  from assms(2) have s: "de_sweep cfg ds [0..<pop_size cfg] st = Inr st'" and ne: "fitness st' \<noteq> []"
    by (auto simp: de_generation_def split: sum.splits if_splits)
  from de_sweep_inv [OF assms(1) _ s] ne show ?thesis by simp
qed

lemma de_generations_inv:
  "de_generations cfg rnd n = Inr st \<Longrightarrow>
   de_inv cfg st \<and> length (scored st) = pop_size cfg * Suc n"
proof (induction n arbitrary: st)
  case 0
  then have "de_inv cfg st" by (simp add: de_init_inv)
  moreover from 0 have "scored st = fitness st"
    by (auto simp: de_init_def Let_def split: sum.splits)
  ultimately show ?case by (auto simp: de_inv_def dest: list_all2_lengthD)
next
  case (Suc n)
  then obtain st0 where a: "de_generations cfg rnd n = Inr st0"
    and b: "de_generation cfg (step_draws rnd n) st0 = Inr st"
    by (auto split: sum.splits)
  from Suc.IH [OF a] de_generation_inv [OF _ b] show ?case by simp
qed

lemma min_list_mono:
  assumes "list_all2 (\<le>) xs ys" and "ys \<noteq> []"
  shows "min_list xs \<le> (min_list ys :: real)"
proof -
  from assms have ne: "xs \<noteq> []" by auto
  from assms(2) have "min_list ys \<in> set ys" by (simp add: min_list_Min)
  then obtain k where k: "k < length ys" "ys ! k = min_list ys" by (auto simp: in_set_conv_nth)
  with assms(1) have "xs ! k \<le> min_list ys" "xs ! k \<in> set xs"
    by (auto simp: list_all2_conv_all_nth)
  moreover from this ne have "min_list xs \<le> xs ! k" by (simp add: min_list_Min)
  ultimately show ?thesis by simp
qed


subsection \<open>The telemetry-driven loop\<close>

lemma eval_pop_Inr:
  "eval_pop g hr env n pop acc = Inr ev \<Longrightarrow>
   \<exists>new. ev = acc @ new \<and> length new = length pop
     \<and> (\<forall>k<length pop. new ! k = entry_at g hr env (n + k) (pop ! k))"
proof (induction pop arbitrary: n acc)
  case Nil
  then show ?case by simp
next
  case (Cons ind rest)
  let ?e = "entry_at g hr env n ind"
  from Cons.prems have r: "eval_pop g hr env (Suc n) rest (acc @ [?e]) = Inr ev"
    by (simp add: Let_def entry_at_def split: if_splits)
  from Cons.IH [OF r] obtain new where new: "ev = (acc @ [?e]) @ new" "length new = length rest"
    "\<forall>k<length rest. new ! k = entry_at g hr env (Suc n + k) (rest ! k)" by blast
  have "\<forall>k<length (ind # rest). (?e # new) ! k = entry_at g hr env (n + k) ((ind # rest) ! k)"
  proof (intro allI impI)
    fix k assume "k < length (ind # rest)"
    with new(3) show "(?e # new) ! k = entry_at g hr env (n + k) ((ind # rest) ! k)"
      by (cases k) simp_all
  qed
  with new(1,2) show ?case by (intro exI [of _ "?e # new"]) simp
qed

lemma eval_pop_total:
  "\<forall>k<length pop. patch_ok env (n + k) \<Longrightarrow> \<exists>ev. eval_pop g hr env n pop acc = Inr ev"
proof (induction pop arbitrary: n acc)
  case Nil
  then show ?case by simp
next
  case (Cons ind rest)
  from Cons.prems have "patch_ok env n" by fastforce
  moreover from Cons.prems have "\<forall>k<length rest. patch_ok env (Suc n + k)" by fastforce
  ultimately show ?case using Cons.IH [of "Suc n"] by (simp add: Let_def)
qed

lemma no_nan_iff: "no_nan es \<longleftrightarrow> (\<forall>e\<in>set es. score e \<noteq> NaN)"
  by (simp add: no_nan_def list_all_iff)

lemma fold_min_by_score_mem:
  "fold (\<lambda>x b. if fl_lt (score x) (score b) then x else b) es e \<in> set (e # es)"
proof (induction es arbitrary: e)
  case Nil
  then show ?case by simp
next
  case (Cons y es)
  from Cons [of "if fl_lt (score y) (score e) then y else e"] show ?case
    by (auto split: if_splits)
qed

lemma fold_min_by_score_least:
  "\<forall>x\<in>set (e # es). score x \<noteq> NaN \<Longrightarrow>
   \<forall>x\<in>set (e # es).
     fl_le (score (fold (\<lambda>x b. if fl_lt (score x) (score b) then x else b) es e)) (score x)"
proof (induction es arbitrary: e)
  case Nil
  then show ?case by (simp add: fl_le_refl)
next
  case (Cons y es)
  let ?f = "\<lambda>x b. if fl_lt (score x) (score b) then x else b"
  let ?b = "if fl_lt (score y) (score e) then y else e"
  from Cons.prems have "\<forall>x\<in>set (?b # es). score x \<noteq> NaN" by simp
  from Cons.IH [OF this]
  have ih: "\<forall>x\<in>set (?b # es). fl_le (score (fold ?f es ?b)) (score x)" .
  then have b: "fl_le (score (fold ?f es ?b)) (score ?b)" by simp
  have "fl_le (score ?b) (score e) \<and> fl_le (score ?b) (score y)"
  proof (cases "fl_lt (score y) (score e)")
    case True
    with Cons.prems show ?thesis by (simp add: fl_lt_imp_le fl_le_refl)
  next
    case False
    with Cons.prems show ?thesis by (simp add: fl_le_iff fl_lt_irrefl)
  qed
  with b have "fl_le (score (fold ?f es ?b)) (score e)" "fl_le (score (fold ?f es ?b)) (score y)"
    by (blast intro: fl_le_trans)+
  with ih show ?case by simp
qed

lemma fold_min_by_score_ties:
  "\<forall>x\<in>set es. \<not> fl_lt (score x) (score e) \<Longrightarrow>
   fold (\<lambda>x b. if fl_lt (score x) (score b) then x else b) es e = e"
  by (induction es) simp_all

lemma min_by_score_Inr:
  assumes "min_by_score ev = Inr b"
  shows "ev \<noteq> [] \<and> b \<in> set ev \<and> (no_nan ev \<longrightarrow> (\<forall>e\<in>set ev. fl_le (score b) (score e)))"
proof (cases ev)
  case Nil
  with assms show ?thesis by simp
next
  case (Cons e es)
  with assms have b: "b = fold (\<lambda>x b. if fl_lt (score x) (score b) then x else b) es e" by simp
  from fold_min_by_score_mem [of es e] have "b \<in> set ev" by (simp add: b Cons)
  moreover have "no_nan ev \<longrightarrow> (\<forall>x\<in>set ev. fl_le (score b) (score x))"
    using fold_min_by_score_least [of e es] by (simp add: b Cons no_nan_iff)
  ultimately show ?thesis by (simp add: Cons)
qed

lemma mbo_init_inv:
  assumes "mbo_init g hr env rnd = Inr st"
  shows "mbo_inv g st \<and> history st = evaluated st"
proof -
  from assms obtain pop ev b where pop: "init_pop (SPACE g) rnd [0..<POP_SIZE g] = Inr pop"
    and ev: "eval_pop g hr env 0 pop [] = Inr ev" and b: "min_by_score ev = Inr b"
    and st: "st = \<lparr>evaluated = ev, best = b, history = ev\<rparr>"
    by (auto simp: mbo_init_def split: if_splits sum.splits)
  have "length ps' = length ps" if "init_pop sp r ps = Inr ps'" for sp r ps ps'
    using that by (induction ps arbitrary: ps') (auto split: sum.splits)
  with pop have "length pop = POP_SIZE g" by fastforce
  with eval_pop_Inr [OF ev] have len: "length ev = POP_SIZE g" by auto
  from min_by_score_Inr [OF b] have ne: "ev \<noteq> []" and bin: "b \<in> set ev"
    and low: "no_nan ev \<longrightarrow> (\<forall>e\<in>set ev. fl_le (score b) (score e))" by simp_all
  from len ne have "0 < POP_SIZE g" by (cases ev) auto
  with len bin low show ?thesis by (simp add: mbo_inv_def st)
qed

lemma mbo_generation_cases:
  assumes "mbo_generation g hr env rnd it st = Inr st'"
  obtains new_evaluated where
    "eval_pop g hr env (length (history st)) (new_pop (SPACE g) rnd it (evaluated st)) [] = Inr new_evaluated"
    and "evaluated st' = take (POP_SIZE g) (combined_sorted (evaluated st) new_evaluated)"
    and "evaluated st' \<noteq> []"
    and "best st' = (if fl_lt (score (hd (evaluated st'))) (score (best st))
                     then hd (evaluated st') else best st)"
    and "history st' = history st @ new_evaluated"
proof -
  from assms obtain new_evaluated where
    n: "eval_pop g hr env (length (history st)) (new_pop (SPACE g) rnd it (evaluated st)) [] = Inr new_evaluated"
    by (auto simp: mbo_generation_def split: sum.splits)
  let ?ev = "take (POP_SIZE g) (combined_sorted (evaluated st) new_evaluated)"
  from assms n obtain e0 es where ev: "?ev = e0 # es"
    and st': "st' = \<lparr>evaluated = ?ev,
        best = (if fl_lt (score e0) (score (best st)) then e0 else best st),
        history = history st @ new_evaluated\<rparr>"
    by (auto simp: mbo_generation_def Let_def split: list.splits)
  from ev have "hd ?ev = e0" by simp
  with ev st' n that [of new_evaluated] show thesis by simp
qed

lemma mbo_generation_inv:
  assumes inv: "mbo_inv g st" and gen: "mbo_generation g hr env rnd it st = Inr st'"
  shows "mbo_inv g st' \<and> \<not> fl_lt (score (best st)) (score (best st'))
    \<and> (score (best st) \<noteq> NaN \<longrightarrow> fl_le (score (best st')) (score (best st)))
    \<and> length (history st') = length (history st) + POP_SIZE g"
proof -
  from gen obtain new where new: "eval_pop g hr env (length (history st)) (new_pop (SPACE g) rnd it (evaluated st)) [] = Inr new"
    and ev: "evaluated st' = take (POP_SIZE g) (combined_sorted (evaluated st) new)"
    and ne: "evaluated st' \<noteq> []"
    and b: "best st' = (if fl_lt (score (hd (evaluated st'))) (score (best st))
                        then hd (evaluated st') else best st)"
    and h: "history st' = history st @ new"
    by (rule mbo_generation_cases)
  let ?cs = "combined_sorted (evaluated st) new"
  from inv have len: "length (evaluated st) = POP_SIZE g" and pos: "0 < POP_SIZE g"
    and sub: "set (evaluated st) \<subseteq> set (history st)"
    and bin: "best st \<in> set (history st)"
    and low: "no_nan (history st) \<longrightarrow> (\<forall>e\<in>set (history st). fl_le (score (best st)) (score e))"
    by (simp_all add: mbo_inv_def)
  from eval_pop_Inr [OF new] have lnew: "length new = POP_SIZE g"
    by (auto simp: new_pop_def len)
  have set_cs: "set ?cs = set (evaluated st) \<union> set new"
    by (simp add: combined_sorted_def set_list_sort)
  have len_cs: "length ?cs = 2 * POP_SIZE g"
    by (simp add: combined_sorted_def length_list_sort len lnew)
  have len': "length (evaluated st') = POP_SIZE g" by (simp add: ev len_cs)
  have sub': "set (evaluated st') \<subseteq> set (history st')"
    using set_take_subset [of "POP_SIZE g" ?cs] set_cs sub by (auto simp: ev h)
  from pos ne have hd_eq: "hd (evaluated st') = hd ?cs" by (simp add: ev)
  have hd_in: "hd (evaluated st') \<in> set (history st')"
    using ne sub' hd_in_set by blast
  have bin': "best st' \<in> set (history st')" using hd_in bin by (simp add: b h)
  have mono: "\<not> fl_lt (score (best st)) (score (best st'))"
    by (auto simp: b fl_lt_irrefl dest: fl_lt_asym)
  have mono_le: "score (best st) \<noteq> NaN \<longrightarrow> fl_le (score (best st')) (score (best st))"
    by (auto simp: b fl_le_refl fl_lt_imp_le)
  have low': "no_nan (history st') \<longrightarrow> (\<forall>e\<in>set (history st'). fl_le (score (best st')) (score e))"
  proof (intro impI ballI)
    fix e assume nn: "no_nan (history st')" and e: "e \<in> set (history st')"
    from nn have nn0: "no_nan (history st)" and nnew: "\<forall>x\<in>set new. score x \<noteq> NaN"
      by (auto simp: no_nan_iff h)
    from nn0 low have low0: "\<forall>e\<in>set (history st). fl_le (score (best st)) (score e)" by blast
    from nn0 sub have "\<forall>x\<in>set (evaluated st). score x \<noteq> NaN" by (auto simp: no_nan_iff)
    with nnew have "\<forall>x\<in>set (evaluated st @ new). score x \<noteq> NaN" by auto
    then have srt: "sorted_wrt (\<lambda>a b. fl_le (score a) (score b)) ?cs"
      unfolding combined_sorted_def by (rule sorted_list_sort)
    from nn hd_in have hd_nn: "score (hd ?cs) \<noteq> NaN" by (auto simp: no_nan_iff hd_eq)
    have hd_low: "fl_le (score (hd ?cs)) (score x)" if "x \<in> set new" for x
      using sorted_wrt_hd_least [OF srt, of x] that set_cs hd_nn by (auto simp: fl_le_refl)
    from nn0 bin have b_nn: "score (best st) \<noteq> NaN" by (auto simp: no_nan_iff)
    from e consider (old) "e \<in> set (history st)" | (new) "e \<in> set new" by (auto simp: h)
    then show "fl_le (score (best st')) (score e)"
    proof cases
      case old
      with low0 have le: "fl_le (score (best st)) (score e)" by blast
      show ?thesis
      proof (cases "fl_lt (score (hd ?cs)) (score (best st))")
        case True
        then have "fl_lt (score (hd ?cs)) (score e)" using le by (rule fl_lt_le_trans)
        then have "fl_le (score (hd ?cs)) (score e)" by (rule fl_lt_imp_le)
        with True show ?thesis by (simp add: b hd_eq)
      next
        case False
        with le show ?thesis by (simp add: b hd_eq)
      qed
    next
      case new
      then have le: "fl_le (score (hd ?cs)) (score e)" by (rule hd_low)
      show ?thesis
      proof (cases "fl_lt (score (hd ?cs)) (score (best st))")
        case True
        with le show ?thesis by (simp add: b hd_eq)
      next
        case False
        with hd_nn b_nn have "fl_le (score (best st)) (score (hd ?cs))" by (simp add: fl_le_iff)
        then have "fl_le (score (best st)) (score e)" using le by (rule fl_le_trans)
        with False show ?thesis by (simp add: b hd_eq)
      qed
    qed
  qed
  from len' pos sub' bin' low' mono mono_le lnew show ?thesis by (simp add: mbo_inv_def h)
qed

lemma mbo_generations_inv:
  "mbo_generations g hr env rnd n = Inr st \<Longrightarrow>
   mbo_inv g st \<and> length (history st) = POP_SIZE g * Suc n"
proof (induction n arbitrary: st)
  case 0
  with mbo_init_inv [of g hr env rnd st] show ?case by (auto simp: mbo_inv_def)
next
  case (Suc n)
  then obtain st0 where a: "mbo_generations g hr env rnd n = Inr st0"
    and b: "mbo_generation g hr env rnd n st0 = Inr st"
    by (auto split: sum.splits)
  from Suc.IH [OF a] mbo_generation_inv [OF _ b] show ?case by simp
qed

subsection \<open>Differential evolution returns\<close>

lemma evaluate_cicd_total:
  assumes "length v = 4" and "v ! 0 \<noteq> 0"
  shows "\<exists>s. evaluate_cicd v = Inr s"
proof -
  from assms(1) obtain a b c d where "v = [a, b, c, d]"
    by (auto simp: eval_nat_numeral length_Suc_conv)
  with assms(2) show ?thesis by (simp add: Let_def)
qed

lemma random_sample3_total:
  "3 \<le> length cands \<Longrightarrow> \<exists>a b c. random_sample3 cands picks = Inr (a, b, c)"
  by (cases picks) (simp add: random_sample3_def Let_def)

lemma random_sample3_short:
  "length cands < 3 \<Longrightarrow> random_sample3 cands picks = Inl ValueError"
  by (cases picks) (simp add: random_sample3_def)

lemma length_candidates: "i < n \<Longrightarrow> length (remove1 i [0..<n]) = n - 1"
  by (simp add: length_remove1)

lemma de_trial_total:
  assumes n: "4 \<le> pop_size cfg" and i: "i < pop_size cfg"
    and dim: "length (bounds cfg) = 4"
    and b0: "fst (bounds cfg ! 0) \<le> snd (bounds cfg ! 0)"
    and x: "fst (bounds cfg ! 0) \<le> pop ! i ! 0"
  shows "\<exists>trial. de_trial cfg d i pop = Inr trial \<and> length trial = 4
           \<and> fst (bounds cfg ! 0) \<le> trial ! 0"
proof -
  from n i have "3 \<le> length (remove1 i [0..<pop_size cfg])"
    by (simp add: length_candidates)
  then obtain a b c
    where s: "random_sample3 (remove1 i [0..<pop_size cfg]) (sample_picks d) = Inr (a, b, c)"
    using random_sample3_total by blast
  define mutant where
    "mutant = clip_mutant (bounds cfg) (de_mutant cfg (pop ! a) (pop ! b) (pop ! c))"
  define cr where "cr = crossover cfg d (randint_R d mod 4) mutant (pop ! i)"
  have m0: "fst (bounds cfg ! 0) \<le> mutant ! 0"
    using dim b0 by (simp add: mutant_def clip_mutant_def np_clip_lower)
  have lcr: "length cr = 4" by (simp add: cr_def crossover_def dim)
  have cr0: "fst (bounds cfg ! 0) \<le> cr ! 0"
    using m0 x by (simp add: cr_def crossover_def dim)
  have "de_trial cfg d i pop = round_integer_params cr"
    using s dim by (simp add: de_trial_def Let_def mutant_def cr_def)
  with lcr cr0 show ?thesis by (simp add: round_integer_params_def)
qed

lemma de_step_total:
  assumes ok: "de_ok cfg st" and n: "4 \<le> pop_size cfg" and i: "i < pop_size cfg"
    and dim: "length (bounds cfg) = 4"
    and pos: "0 < fst (bounds cfg ! 0)"
    and b0: "fst (bounds cfg ! 0) \<le> snd (bounds cfg ! 0)"
  shows "\<exists>st'. de_step cfg d i st = Inr st' \<and> de_ok cfg st'"
proof -
  from ok i have "population st ! i \<in> set (population st)" by (simp add: de_ok_def)
  with ok have "fst (bounds cfg ! 0) \<le> population st ! i ! 0" by (simp add: de_ok_def)
  from de_trial_total [OF n i dim b0 this] obtain trial
    where t: "de_trial cfg d i (population st) = Inr trial" and lt: "length trial = 4"
      and t0: "fst (bounds cfg ! 0) \<le> trial ! 0" by blast
  from pos t0 have "trial ! 0 \<noteq> 0" by simp
  with lt obtain tf where tf: "evaluate_cicd trial = Inr tf"
    using evaluate_cicd_total by blast
  have upd: "\<forall>ind\<in>set ((population st)[i := trial]). length ind = 4 \<and> fst (bounds cfg ! 0) \<le> ind ! 0"
    using ok lt t0 set_update_subset_insert [of "population st" i trial]
    by (auto simp: de_ok_def)
  show ?thesis
  proof (cases "tf < fitness st ! i")
    case True
    with t tf ok upd show ?thesis by (simp add: de_step_def de_ok_def)
  next
    case False
    with t tf ok show ?thesis by (simp add: de_step_def de_ok_def)
  qed
qed

lemma de_sweep_total:
  assumes n: "4 \<le> pop_size cfg" and dim: "length (bounds cfg) = 4"
    and pos: "0 < fst (bounds cfg ! 0)" and b0: "fst (bounds cfg ! 0) \<le> snd (bounds cfg ! 0)"
  shows "de_ok cfg st \<Longrightarrow> \<forall>i\<in>set js. i < pop_size cfg \<Longrightarrow>
         \<exists>st'. de_sweep cfg ds js st = Inr st' \<and> de_ok cfg st'"
proof (induction js arbitrary: st)
  case Nil
  then show ?case by simp
next
  case (Cons i js)
  from Cons.prems have "i < pop_size cfg" by simp
  from de_step_total [OF Cons.prems(1) n this dim pos b0] obtain st1
    where s: "de_step cfg (ds i) i st = Inr st1" and ok1: "de_ok cfg st1" by blast
  from Cons.IH [OF ok1] Cons.prems(2) obtain st'
    where "de_sweep cfg ds js st1 = Inr st'" "de_ok cfg st'" by auto
  with s show ?case by simp
qed

lemma de_generation_total:
  assumes n: "4 \<le> pop_size cfg" and dim: "length (bounds cfg) = 4"
    and pos: "0 < fst (bounds cfg ! 0)" and b0: "fst (bounds cfg ! 0) \<le> snd (bounds cfg ! 0)"
    and ok: "de_ok cfg st"
  shows "\<exists>st'. de_generation cfg ds st = Inr st' \<and> de_ok cfg st'"
proof -
  from de_sweep_total [OF n dim pos b0 ok, of "[0..<pop_size cfg]" ds] obtain st'
    where s: "de_sweep cfg ds [0..<pop_size cfg] st = Inr st'" and ok': "de_ok cfg st'" by auto
  from ok' n have "fitness st' \<noteq> []" by (auto simp: de_ok_def)
  with s ok' show ?thesis by (simp add: de_generation_def)
qed

lemma eval_all_total:
  "\<forall>ind\<in>set pop. length ind = 4 \<and> ind ! 0 \<noteq> 0 \<Longrightarrow> \<exists>fit. eval_all pop acc = Inr fit"
proof (induction pop arbitrary: acc)
  case Nil
  then show ?case by simp
next
  case (Cons ind rest)
  from Cons.prems have "length ind = 4" "ind ! 0 \<noteq> 0" by simp_all
  then obtain s where s: "evaluate_cicd ind = Inr s" using evaluate_cicd_total by blast
  from Cons.prems have "\<forall>ind\<in>set rest. length ind = 4 \<and> ind ! 0 \<noteq> 0" by simp
  from Cons.IH [OF this] s show ?case by simp
qed

lemma de_init_total:
  assumes dim: "length (bounds cfg) = 4"
    and pos: "0 < fst (bounds cfg ! 0)" and b0: "fst (bounds cfg ! 0) \<le> snd (bounds cfg ! 0)"
    and u: "\<forall>p j. 0 \<le> init_u rnd p j"
  shows "\<exists>st. de_init cfg rnd = Inr st \<and> de_ok cfg st"
proof -
  let ?pop = "init_population cfg (init_u rnd)"
  have p: "\<forall>ind\<in>set ?pop. length ind = 4 \<and> fst (bounds cfg ! 0) \<le> ind ! 0"
    using dim b0 u by (auto simp: init_population_def uniform_lower)
  with pos have "\<forall>ind\<in>set ?pop. length ind = 4 \<and> ind ! 0 \<noteq> 0" by fastforce
  from eval_all_total [OF this] obtain fit where fit: "eval_all ?pop [] = Inr fit" by blast
  from eval_all_Inr [OF fit] have "length fit = length ?pop"
    by (auto dest: list_all2_lengthD)
  moreover have "length ?pop = pop_size cfg" by (simp add: init_population_def)
  ultimately show ?thesis using fit p by (simp add: de_init_def de_ok_def)
qed

lemma de_generations_total:
  assumes n: "4 \<le> pop_size cfg" and dim: "length (bounds cfg) = 4"
    and pos: "0 < fst (bounds cfg ! 0)" and b0: "fst (bounds cfg ! 0) \<le> snd (bounds cfg ! 0)"
    and u: "\<forall>p j. 0 \<le> init_u rnd p j"
  shows "\<exists>st. de_generations cfg rnd k = Inr st \<and> de_ok cfg st"
proof (induction k)
  case 0
  from de_init_total [OF dim pos b0 u] show ?case by simp
next
  case (Suc k)
  then obtain st where st: "de_generations cfg rnd k = Inr st" and ok: "de_ok cfg st" by blast
  from de_generation_total [OF n dim pos b0 ok] st show ?case by simp
qed

lemma de_small_population_fails:
  assumes n: "0 < pop_size cfg" "pop_size cfg < 4" and init: "de_init cfg rnd = Inr st0"
  shows "de_generations cfg rnd (Suc k) = Inl (ValueError, pop_size cfg)"
proof (induction k)
  case 0
  from init have inv: "de_inv cfg st0" by (rule de_init_inv)
  from init have "scored st0 = fitness st0"
    by (auto simp: de_init_def Let_def split: sum.splits)
  with inv have len: "length (scored st0) = pop_size cfg"
    by (auto simp: de_inv_def dest: list_all2_lengthD)
  from n have "length (remove1 0 [0..<pop_size cfg]) < 3" by (simp add: length_candidates)
  then have "de_trial cfg d 0 (population st0) = Inl ValueError" for d
    by (simp add: de_trial_def random_sample3_short)
  then have "de_step cfg d 0 st0 = Inl (ValueError, pop_size cfg)" for d
    by (simp add: de_step_def len)
  moreover from n have "[0..<pop_size cfg] = 0 # [Suc 0..<pop_size cfg]"
    by (simp add: upt_conv_Cons)
  ultimately have "de_generation cfg ds st0 = Inl (ValueError, pop_size cfg)" for ds
    by (simp add: de_generation_def)
  with init show ?case by simp
next
  case (Suc k)
  then show ?case by simp
qed

subsection \<open>The telemetry-driven loop returns\<close>

lemma randint_total: "a \<le> b \<Longrightarrow> \<exists>k. randint a b r = Inr k"
  by (simp add: randint_def)

lemma init_pop_total:
  assumes "fst (space_replicas sp) \<le> snd (space_replicas sp)"
    and "fst (space_concurrency sp) \<le> snd (space_concurrency sp)"
  shows "\<exists>pop. init_pop sp rnd ps = Inr pop \<and> length pop = length ps"
proof (induction ps)
  case Nil
  then show ?case by simp
next
  case (Cons p ps)
  from assms have "\<exists>ind. init_individual sp rnd p = Inr ind"
    by (simp add: init_individual_def randint_def Let_def)
  with Cons show ?case by auto
qed

lemma mbo_init_total:
  assumes "client_ok env" and "\<forall>n. patch_ok env n" and "0 < POP_SIZE g"
    and "fst (space_replicas (SPACE g)) \<le> snd (space_replicas (SPACE g))"
    and "fst (space_concurrency (SPACE g)) \<le> snd (space_concurrency (SPACE g))"
  shows "\<exists>st. mbo_init g hr env rnd = Inr st"
proof -
  from init_pop_total [OF assms(4,5)] obtain pop
    where pop: "init_pop (SPACE g) rnd [0..<POP_SIZE g] = Inr pop"
      and lp: "length pop = POP_SIZE g" by fastforce
  from assms(2) obtain ev where ev: "eval_pop g hr env 0 pop [] = Inr ev"
    using eval_pop_total [of pop env 0 g hr "[]"] by auto
  from eval_pop_Inr [OF ev] lp assms(3) have "ev \<noteq> []" by auto
  then obtain b where "min_by_score ev = Inr b" by (cases ev) auto
  with assms(1) pop ev show ?thesis by (simp add: mbo_init_def)
qed

lemma mbo_generation_total:
  assumes inv: "mbo_inv g st" and p: "\<forall>n. patch_ok env n"
  shows "\<exists>st'. mbo_generation g hr env rnd it st = Inr st'"
proof -
  let ?np = "new_pop (SPACE g) rnd it (evaluated st)"
  from p obtain new where new: "eval_pop g hr env (length (history st)) ?np [] = Inr new"
    using eval_pop_total [of ?np env "length (history st)" g hr "[]"] by auto
  from inv have "length (evaluated st) = POP_SIZE g" "0 < POP_SIZE g"
    by (simp_all add: mbo_inv_def)
  then have "length (take (POP_SIZE g) (combined_sorted (evaluated st) new)) = POP_SIZE g"
    and "0 < POP_SIZE g" by (simp_all add: combined_sorted_def length_list_sort)
  then have "take (POP_SIZE g) (combined_sorted (evaluated st) new) \<noteq> []"
    by (metis length_0_conv less_numeral_extra(3))
  with new show ?thesis
    by (auto simp: mbo_generation_def Let_def split: list.splits)
qed

lemma mbo_generations_total:
  assumes "client_ok env" and "\<forall>n. patch_ok env n" and "0 < POP_SIZE g"
    and "fst (space_replicas (SPACE g)) \<le> snd (space_replicas (SPACE g))"
    and "fst (space_concurrency (SPACE g)) \<le> snd (space_concurrency (SPACE g))"
  shows "\<exists>st. mbo_generations g hr env rnd k = Inr st"
proof (induction k)
  case 0
  from mbo_init_total [OF assms] show ?case by simp
next
  case (Suc k)
  then obtain st where st: "mbo_generations g hr env rnd k = Inr st" by blast
  from mbo_generations_inv [OF st] have "mbo_inv g st" by simp
  from mbo_generation_total [OF this assms(2)] st show ?case by simp
qed

lemma eval_pop_entries:
  assumes "eval_pop g hr env n pop [] = Inr ev"
  shows "\<forall>e\<in>set ev. \<exists>k ind. e = entry_at g hr env k ind"
proof
  fix e assume "e \<in> set ev"
  then obtain i where i: "i < length ev" "ev ! i = e" by (auto simp: in_set_conv_nth)
  from eval_pop_Inr [OF assms] have "length ev = length pop"
    and "\<forall>k<length pop. ev ! k = entry_at g hr env (n + k) (pop ! k)" by auto
  with i have "e = entry_at g hr env (n + i) (pop ! i)" by auto
  then show "\<exists>k ind. e = entry_at g hr env k ind" by blast
qed

lemma mbo_history_entries:
  "mbo_generations g hr env rnd k = Inr st \<Longrightarrow>
   \<forall>e\<in>set (history st). \<exists>n ind. e = entry_at g hr env n ind"
proof (induction k arbitrary: st)
  case 0
  then obtain pop ev where ev: "eval_pop g hr env 0 pop [] = Inr ev" and h: "history st = ev"
    by (auto simp: mbo_init_def split: if_splits sum.splits)
  from eval_pop_entries [OF ev] show ?case by (simp add: h)
next
  case (Suc k)
  then obtain st0 where a: "mbo_generations g hr env rnd k = Inr st0"
    and b: "mbo_generation g hr env rnd k st0 = Inr st"
    by (auto split: sum.splits)
  from b obtain new where new: "eval_pop g hr env (length (history st0))
        (new_pop (SPACE g) rnd k (evaluated st0)) [] = Inr new"
    and h: "history st = history st0 @ new"
    by (rule mbo_generation_cases)
  from eval_pop_entries [OF new] Suc.IH [OF a] show ?case by (auto simp: h)
qed

lemma query_attempts_fail:
  "\<forall>a\<in>set as. \<forall>r. resp a \<noteq> Success r \<Longrightarrow> query_attempts resp as = None"
  by (induction as) (auto split: attempt.splits)

lemma prometheus_query_fail:
  "\<forall>a<3. \<forall>r. resp a \<noteq> Success r \<Longrightarrow> prometheus_query resp = None"
  by (simp add: prometheus_query_def query_attempts_fail)

lemma fetch_fallback:
  assumes "\<forall>q. \<forall>a<3. \<forall>r. prom q a \<noteq> Success r"
  shows "fetch_current_metrics prom
    = \<lparr>build_duration = Num 300, cpu_usage = Num 0.5, memory = Num 0\<rparr>"
  using assms
  by (simp add: fetch_current_metrics_def get_metric_scalar_def prometheus_query_fail py_or_def)

lemma fallback_score:
  "objective_from_metrics g \<lparr>build_duration = Num 300, cpu_usage = Num 0.5, memory = Num 0\<rparr>
     the_hist_ranges
   = fl_add (fl_mul (ALPHA g) (Num (5 / 17))) (fl_mul (BETA g) (Num (49 / 199)))"
  by (simp add: objective_from_metrics_def the_hist_ranges_def normalize_val_def fl_sub_def)

lemma mbo_best_first:
  "mbo_generations g hr env rnd n = Inr st \<Longrightarrow> \<forall>e\<in>set (history st). score e = c
   \<Longrightarrow> best st = hd (history st)"
proof (induction n arbitrary: st)
  case 0
  then obtain pop ev b where ev: "eval_pop g hr env 0 pop [] = Inr ev"
    and b: "min_by_score ev = Inr b"
    and st: "st = \<lparr>evaluated = ev, best = b, history = ev\<rparr>"
    by (auto simp: mbo_init_def split: if_splits sum.splits)
  from b obtain e es where c: "ev = e # es" by (cases ev) auto
  with "0.prems"(2) have "\<forall>x\<in>set es. \<not> fl_lt (score x) (score e)"
    by (simp add: st fl_lt_irrefl)
  from fold_min_by_score_ties [OF this] b show ?case by (simp add: c st)
next
  case (Suc n)
  then obtain st0 where a: "mbo_generations g hr env rnd n = Inr st0"
    and gen: "mbo_generation g hr env rnd n st0 = Inr st"
    by (auto split: sum.splits)
  from mbo_generations_inv [OF a] have inv: "mbo_inv g st0"
    and len: "length (history st0) = POP_SIZE g * Suc n" by simp_all
  from inv len have ne0: "history st0 \<noteq> []" by (auto simp: mbo_inv_def)
  from mbo_generation_inv [OF inv gen] have inv': "mbo_inv g st" by simp
  from gen obtain new where ne: "evaluated st \<noteq> []"
    and b: "best st = (if fl_lt (score (hd (evaluated st))) (score (best st0))
                       then hd (evaluated st) else best st0)"
    and h: "history st = history st0 @ new"
    by (rule mbo_generation_cases)
  from Suc.prems(2) have all0: "\<forall>e\<in>set (history st0). score e = c" by (simp add: h)
  from Suc.IH [OF a all0] have b0: "best st0 = hd (history st0)" .
  from inv' ne have "hd (evaluated st) \<in> set (history st)" by (auto simp: mbo_inv_def)
  with Suc.prems(2) have "score (hd (evaluated st)) = c" by blast
  moreover from inv all0 have "score (best st0) = c" by (simp add: mbo_inv_def)
  ultimately have "best st = best st0" by (simp add: b fl_lt_irrefl)
  with b0 ne0 show ?case by (simp add: h)
qed

subsection \<open>The concrete runs, evaluated\<close>

lemma demo_init: "de_init demo_cfg demo_rnd = Inr demo_st0"
  by code_simp

lemma demo_step_accepted: "de_step demo_cfg (demo_draws 0 0) 0 demo_st0 = Inr demo_accepted"
  by code_simp

lemma demo_gens1: "de_generations demo_cfg demo_rnd (Suc 0) = Inr demo_st1"
  by code_simp

lemma demo_run: "differential_evolution demo_cfg demo_rnd = Inr ([13 / 16, 2176, 53 / 8, 4], 16484497 / 26000)"
  by code_simp

lemma tie_init: "de_init demo_cfg tie_rnd = Inr tie_st0"
  by code_simp

lemma demo_step_tie:
  "de_step demo_cfg (demo_draws 0 0) 0 tie_st0 = Inr (tie_st0\<lparr>scored := scored tie_st0 @ [1250633 / 250]\<rparr>)"
  by code_simp

lemma demo_mbo_init: "mbo_generations demo_globals the_hist_ranges demo_env demo_mbo_rnd 0 = Inr demo_mbo0"
  by code_simp

lemma demo_mbo_generation:
  "mbo_generation demo_globals the_hist_ranges demo_env demo_mbo_rnd 0 demo_mbo0 = Inr demo_mbo1"
  by code_simp

lemma demo_mbo_gens1:
  "mbo_generations demo_globals the_hist_ranges demo_env demo_mbo_rnd (Suc 0) = Inr demo_mbo1"
  by code_simp

lemma demo_mbo_run: "mbo_optimize demo_globals demo_env demo_mbo_rnd = Inr demo_e85"
  by code_simp

lemma nan_mbo_init: "mbo_generations demo_globals the_hist_ranges nan_env demo_mbo_rnd 0 = Inr nan_mbo0"
  by code_simp

lemma nan_mbo_generation:
  "mbo_generation demo_globals the_hist_ranges nan_env demo_mbo_rnd 0 nan_mbo0 = Inr nan_mbo1"
  by code_simp

lemma nan_mbo_gens1:
  "mbo_generations demo_globals the_hist_ranges nan_env demo_mbo_rnd (Suc 0) = Inr nan_mbo1"
  by code_simp

lemma nan_mbo_run: "mbo_optimize demo_globals nan_env demo_mbo_rnd = Inr nan_e0"
  by code_simp

lemma nan_offspring:
  "eval_pop demo_globals the_hist_ranges nan_env (length (history nan_mbo0))
     (new_pop (SPACE demo_globals) demo_mbo_rnd 0 (evaluated nan_mbo0)) [] = Inr [nan_e2, nan_e3]"
  by code_simp

lemma nan_sorted:
  "combined_sorted (evaluated nan_mbo0) [nan_e2, nan_e3] = [nan_e0, nan_e1, nan_e2, nan_e3]"
  by code_simp

lemma demo_offspring:
  "eval_pop demo_globals the_hist_ranges demo_env (length (history demo_mbo0))
     (new_pop (SPACE demo_globals) demo_mbo_rnd 0 (evaluated demo_mbo0)) [] = Inr [demo_e90, demo_e85]"
  by code_simp

lemma demo_sorted:
  "combined_sorted (evaluated demo_mbo0) [demo_e90, demo_e85]
     = [demo_e85, demo_e90, demo_e95, demo_e100]"
  by code_simp

lemma list_sort_nan:
  "list_sort id [Num (3 / 10), NaN, Num (1 / 5), Num (1 / 10)]
     = [Num (3 / 10), NaN, Num (1 / 10), Num (1 / 5)]"
  by code_simp


section \<open>Properties\<close>

text \<open>
  C1 as it is stated does not hold of the telemetry-driven loop: a score is NaN as soon as a
  sample that enters it is the text \<open>NaN\<close>, and every comparison with NaN is
  false. The run on \<open>nan_env\<close> returns an entry of score 1987/3980 although it
  scored one of 4527/13532.
\<close>

theorem returned_best_not_lowest:
  "mbo_optimize demo_globals nan_env demo_mbo_rnd = Inr nan_e0
   \<and> mbo_generations demo_globals the_hist_ranges nan_env demo_mbo_rnd (MAX_ITERS demo_globals)
       = Inr nan_mbo1
   \<and> nan_e2 \<in> set (history nan_mbo1)
   \<and> score nan_e0 = Num (1987 / 3980) \<and> score nan_e2 = Num (4527 / 13532)
   \<and> fl_lt (score nan_e2) (score nan_e0) \<and> \<not> fl_le (score nan_e0) (score nan_e2)"
proof -
  have "mbo_optimize demo_globals nan_env demo_mbo_rnd = Inr nan_e0" by code_simp
  moreover have "mbo_generations demo_globals the_hist_ranges nan_env demo_mbo_rnd
      (MAX_ITERS demo_globals) = Inr nan_mbo1" by code_simp
  moreover have "nan_e2 \<in> set (history nan_mbo1)" by (simp add: nan_mbo1_def)
  moreover have "score nan_e0 = Num (1987 / 3980)" "score nan_e2 = Num (4527 / 13532)"
    by (simp_all add: score_def nan_e0_def nan_e2_def)
  ultimately show ?thesis by simp
qed

text \<open>
  C1, as the code has it. In differential evolution the best score, \<open>min(fitness)\<close>,
  never goes up from one generation to the next, and the returned score is that minimum, is
  the score of the returned vector, and is not above any score the run ever computed. In the
  telemetry-driven loop the score of \<open>best\<close> is never replaced by a greater one,
  and the returned entry is the \<open>best\<close> of the final state and one the run
  scored; that its score is less than or equal to the one before, and that it is the lowest
  score of the run, holds when no score of the run is NaN.
\<close>

theorem best_score_monotone:
  "(de_generations cfg rnd (Suc n) = Inr st' \<longrightarrow>
      (\<exists>st. de_generations cfg rnd n = Inr st
           \<and> min_list (fitness st') \<le> min_list (fitness st)))
   \<and> (differential_evolution cfg rnd = Inr (x, s) \<longrightarrow>
      (\<exists>st. de_generations cfg rnd (max_iter cfg) = Inr st
           \<and> s = min_list (fitness st) \<and> evaluate_cicd x = Inr s
           \<and> s \<in> set (scored st) \<and> (\<forall>t\<in>set (scored st). s \<le> t)))
   \<and> (mbo_generations g hr env r (Suc n) = Inr mt' \<longrightarrow>
      (\<exists>mt. mbo_generations g hr env r n = Inr mt
           \<and> \<not> fl_lt (score (best mt)) (score (best mt'))
           \<and> (score (best mt) \<noteq> NaN \<longrightarrow> fl_le (score (best mt')) (score (best mt)))))
   \<and> (mbo_optimize g env r = Inr b \<longrightarrow>
      (\<exists>mt. mbo_generations g the_hist_ranges env r (MAX_ITERS g) = Inr mt
           \<and> b = best mt \<and> b \<in> set (history mt)
           \<and> (no_nan (history mt) \<longrightarrow> (\<forall>e\<in>set (history mt). fl_le (score b) (score e)))))"
proof (intro conjI impI)
  assume a: "de_generations cfg rnd (Suc n) = Inr st'"
  then obtain st where st: "de_generations cfg rnd n = Inr st"
    and g: "de_generation cfg (step_draws rnd n) st = Inr st'"
    by (auto split: sum.splits)
  from de_generations_inv [OF st] have "de_inv cfg st" by simp
  from de_generation_inv [OF this g]
  have m: "list_all2 (\<le>) (fitness st') (fitness st)" and ne: "fitness st' \<noteq> []" by simp_all
  from m ne have "fitness st \<noteq> []" by auto
  with m have "min_list (fitness st') \<le> min_list (fitness st)" by (rule min_list_mono)
  with st show "\<exists>st. de_generations cfg rnd n = Inr st
      \<and> min_list (fitness st') \<le> min_list (fitness st)" by blast
next
  assume a: "differential_evolution cfg rnd = Inr (x, s)"
  then obtain st where st: "de_generations cfg rnd (max_iter cfg) = Inr st"
    and ne: "fitness st \<noteq> []"
    and x: "x = population st ! argmin (fitness st)"
    and s: "s = fitness st ! argmin (fitness st)"
    by (auto simp: differential_evolution_def Let_def split: sum.splits if_splits)
  from de_generations_inv [OF st] have inv: "de_inv cfg st" by simp
  from argmin_correct [OF ne] have k: "argmin (fitness st) < length (fitness st)"
    and sm: "s = min_list (fitness st)" by (simp_all add: s)
  from inv k have ev: "evaluate_cicd x = Inr s"
    by (simp add: de_inv_def list_all2_conv_all_nth x s)
  from k s have sin: "s \<in> set (fitness st)" by simp
  with inv have sc: "s \<in> set (scored st)" by (auto simp: de_inv_def)
  have low: "\<forall>t\<in>set (scored st). s \<le> t"
  proof
    fix t assume "t \<in> set (scored st)"
    with inv obtain f where f: "f \<in> set (fitness st)" "f \<le> t" by (auto simp: de_inv_def)
    with ne have "min_list (fitness st) \<le> f" by (simp add: min_list_Min)
    with f sm show "s \<le> t" by simp
  qed
  from st sm ev sc low show "\<exists>st. de_generations cfg rnd (max_iter cfg) = Inr st
      \<and> s = min_list (fitness st) \<and> evaluate_cicd x = Inr s
      \<and> s \<in> set (scored st) \<and> (\<forall>t\<in>set (scored st). s \<le> t)" by blast
next
  assume "mbo_generations g hr env r (Suc n) = Inr mt'"
  then obtain mt where mt: "mbo_generations g hr env r n = Inr mt"
    and gen: "mbo_generation g hr env r n mt = Inr mt'"
    by (auto split: sum.splits)
  from mbo_generations_inv [OF mt] have "mbo_inv g mt" by simp
  from mbo_generation_inv [OF this gen] mt
  show "\<exists>mt. mbo_generations g hr env r n = Inr mt
      \<and> \<not> fl_lt (score (best mt)) (score (best mt'))
      \<and> (score (best mt) \<noteq> NaN \<longrightarrow> fl_le (score (best mt')) (score (best mt)))"
    by blast
next
  assume "mbo_optimize g env r = Inr b"
  then obtain mt where mt: "mbo_generations g the_hist_ranges env r (MAX_ITERS g) = Inr mt"
    and b: "b = best mt"
    by (auto simp: mbo_optimize_def split: sum.splits)
  from mbo_generations_inv [OF mt] have "mbo_inv g mt" by simp
  with mt b show "\<exists>mt. mbo_generations g the_hist_ranges env r (MAX_ITERS g) = Inr mt
      \<and> b = best mt \<and> b \<in> set (history mt)
      \<and> (no_nan (history mt) \<longrightarrow> (\<forall>e\<in>set (history mt). fl_le (score b) (score e)))"
    by (auto simp: mbo_inv_def)
qed

theorem best_score_monotone_witness:
  "de_generations demo_cfg demo_rnd (Suc 0) = Inr demo_st1
   \<and> (\<exists>st. de_generations demo_cfg demo_rnd 0 = Inr st
         \<and> min_list (fitness demo_st1) \<le> min_list (fitness st))
   \<and> differential_evolution demo_cfg demo_rnd = Inr ([13 / 16, 2176, 53 / 8, 4], 16484497 / 26000)
   \<and> (\<exists>st. de_generations demo_cfg demo_rnd (max_iter demo_cfg) = Inr st
         \<and> 16484497 / 26000 = min_list (fitness st)
         \<and> evaluate_cicd [13 / 16, 2176, 53 / 8, 4] = Inr (16484497 / 26000)
         \<and> 16484497 / 26000 \<in> set (scored st) \<and> (\<forall>t\<in>set (scored st). 16484497 / 26000 \<le> t))
   \<and> mbo_generations demo_globals the_hist_ranges demo_env demo_mbo_rnd (Suc 0) = Inr demo_mbo1
   \<and> mbo_generations demo_globals the_hist_ranges demo_env demo_mbo_rnd 0 = Inr demo_mbo0
   \<and> score (best demo_mbo0) \<noteq> NaN
   \<and> fl_le (score (best demo_mbo1)) (score (best demo_mbo0))
   \<and> mbo_optimize demo_globals demo_env demo_mbo_rnd = Inr demo_e85
   \<and> no_nan (history demo_mbo1)
   \<and> demo_e85 \<in> set (history demo_mbo1)
   \<and> fl_le (score demo_e85) (score demo_e100) \<and> fl_le (score demo_e85) (score demo_e95)
   \<and> fl_le (score demo_e85) (score demo_e90) \<and> fl_le (score demo_e85) (score demo_e85)"
proof -
  note inst = best_score_monotone [of demo_cfg demo_rnd 0 demo_st1
      "[13 / 16, 2176, 53 / 8, 4]" "16484497 / 26000" demo_globals the_hist_ranges demo_env
      demo_mbo_rnd demo_mbo1 demo_e85]
  from inst demo_gens1 have de1: "\<exists>st. de_generations demo_cfg demo_rnd 0 = Inr st
         \<and> min_list (fitness demo_st1) \<le> min_list (fitness st)" by blast
  from inst demo_run have de2: "\<exists>st. de_generations demo_cfg demo_rnd (max_iter demo_cfg) = Inr st
         \<and> 16484497 / 26000 = min_list (fitness st)
         \<and> evaluate_cicd [13 / 16, 2176, 53 / 8, 4] = Inr (16484497 / 26000)
         \<and> 16484497 / 26000 \<in> set (scored st) \<and> (\<forall>t\<in>set (scored st). 16484497 / 26000 \<le> t)"
    by blast
  have nn0: "score (best demo_mbo0) \<noteq> NaN"
    by (simp add: demo_mbo0_def demo_e95_def score_def)
  from inst demo_mbo_gens1 demo_mbo_init nn0
  have m1: "fl_le (score (best demo_mbo1)) (score (best demo_mbo0))" by auto
  have it: "MAX_ITERS demo_globals = Suc 0" by (simp add: demo_globals_def)
  have nn: "no_nan (history demo_mbo1)"
    by (simp add: no_nan_def demo_mbo1_def demo_e100_def demo_e95_def demo_e90_def demo_e85_def
        score_def)
  from inst demo_mbo_run demo_mbo_gens1 nn
  have m2: "demo_e85 \<in> set (history demo_mbo1)
      \<and> (\<forall>e\<in>set (history demo_mbo1). fl_le (score demo_e85) (score e))"
    unfolding it by auto
  then have "fl_le (score demo_e85) (score demo_e100) \<and> fl_le (score demo_e85) (score demo_e95)
      \<and> fl_le (score demo_e85) (score demo_e90) \<and> fl_le (score demo_e85) (score demo_e85)"
    by (simp add: demo_mbo1_def)
  with de1 de2 m1 m2 nn nn0 demo_gens1 demo_run demo_mbo_gens1 demo_mbo_init demo_mbo_run
  show ?thesis by blast
qed


text \<open>
  C2: in a pass of the inner loop of \<open>differential_evolution\<close> for index
  \<open>i\<close>, the trial takes the place of individual \<open>i\<close>, in the population and
  in the fitness list, exactly when its score is strictly below \<open>fitness[i]\<close>; on
  a tie or a worse score both lists are left as they were. The concrete passes: one trial that
  is accepted, and one whose score equals that of the incumbent and is discarded.
\<close>

theorem de_replacement_strict:
  assumes "de_step cfg d i st = Inr st'"
  shows "\<exists>trial tf. de_trial cfg d i (population st) = Inr trial \<and> evaluate_cicd trial = Inr tf
     \<and> scored st' = scored st @ [tf]
     \<and> (if tf < fitness st ! i
         then population st' = (population st)[i := trial] \<and> fitness st' = (fitness st)[i := tf]
         else population st' = population st \<and> fitness st' = fitness st)"
  using assms by (rule de_step_cases) auto

theorem de_replacement_strict_witness:
  "de_step demo_cfg (demo_draws 0 0) 0 demo_st0 = Inr demo_accepted
   \<and> de_trial demo_cfg (demo_draws 0 0) 0 (population demo_st0) = Inr [59 / 400, 832, 3, 2]
   \<and> 200442441 / 59000 < fitness demo_st0 ! 0
   \<and> population demo_accepted = (population demo_st0)[0 := [59 / 400, 832, 3, 2]]
   \<and> fitness demo_accepted = (fitness demo_st0)[0 := 200442441 / 59000]
   \<and> de_step demo_cfg (demo_draws 0 0) 0 tie_st0
       = Inr (tie_st0\<lparr>scored := scored tie_st0 @ [1250633 / 250]\<rparr>)
   \<and> de_trial demo_cfg (demo_draws 0 0) 0 (population tie_st0) = Inr [1 / 10, 256, 1, 1]
   \<and> evaluate_cicd [1 / 10, 256, 1, 1] = Inr (1250633 / 250)
   \<and> fitness tie_st0 ! 0 = 1250633 / 250
   \<and> population (tie_st0\<lparr>scored := scored tie_st0 @ [1250633 / 250]\<rparr>) = population tie_st0
   \<and> fitness (tie_st0\<lparr>scored := scored tie_st0 @ [1250633 / 250]\<rparr>) = fitness tie_st0"
proof -
  have t1: "de_trial demo_cfg (demo_draws 0 0) 0 (population demo_st0) = Inr [59 / 400, 832, 3, 2]"
    by code_simp
  have t2: "de_trial demo_cfg (demo_draws 0 0) 0 (population tie_st0) = Inr [1 / 10, 256, 1, 1]"
    by code_simp
  have e1: "evaluate_cicd [59 / 400, 832, 3, 2] = Inr (200442441 / 59000)" by code_simp
  have e2: "evaluate_cicd [1 / 10, 256, 1, 1] = Inr (1250633 / 250)" by code_simp
  have f1: "200442441 / 59000 < fitness demo_st0 ! 0" by (simp add: demo_st0_def)
  have f2: "fitness tie_st0 ! 0 = 1250633 / 250" by (simp add: tie_st0_def)
  from de_replacement_strict [OF demo_step_accepted] obtain trial tf
    where tr: "de_trial demo_cfg (demo_draws 0 0) 0 (population demo_st0) = Inr trial"
      and ev: "evaluate_cicd trial = Inr tf"
      and r: "if tf < fitness demo_st0 ! 0
         then population demo_accepted = (population demo_st0)[0 := trial]
           \<and> fitness demo_accepted = (fitness demo_st0)[0 := tf]
         else population demo_accepted = population demo_st0
           \<and> fitness demo_accepted = fitness demo_st0"
    by blast
  from tr t1 have trial: "trial = [59 / 400, 832, 3, 2]" by simp
  from ev e1 have tf: "tf = 200442441 / 59000" unfolding trial by simp
  from r f1 have "population demo_accepted = (population demo_st0)[0 := [59 / 400, 832, 3, 2]]
    \<and> fitness demo_accepted = (fitness demo_st0)[0 := 200442441 / 59000]"
    unfolding trial tf by simp
  moreover have "population (tie_st0\<lparr>scored := scored tie_st0 @ [1250633 / 250]\<rparr>) = population tie_st0
    \<and> fitness (tie_st0\<lparr>scored := scored tie_st0 @ [1250633 / 250]\<rparr>) = fitness tie_st0"
    by simp
  ultimately show ?thesis using demo_step_accepted demo_step_tie t1 t2 e2 f1 f2 by blast
qed


text \<open>
  C3 as it is stated does not hold when a score is NaN: the order \<open>list.sort\<close>
  leaves then need not be ascending. The generation of the run on \<open>nan_env\<close>
  merges parents of scores 1987/3980 and NaN with offspring of scores 4527/13532 and NaN;
  \<open>list.sort\<close> leaves them in that order, so the entry of score 1987/3980 is kept
  and the one of score 4527/13532 is discarded.
\<close>

theorem kept_above_discarded:
  "mbo_generations demo_globals the_hist_ranges nan_env demo_mbo_rnd 0 = Inr nan_mbo0
   \<and> mbo_generation demo_globals the_hist_ranges nan_env demo_mbo_rnd 0 nan_mbo0 = Inr nan_mbo1
   \<and> eval_pop demo_globals the_hist_ranges nan_env (length (history nan_mbo0))
        (new_pop (SPACE demo_globals) demo_mbo_rnd 0 (evaluated nan_mbo0)) [] = Inr [nan_e2, nan_e3]
   \<and> combined_sorted (evaluated nan_mbo0) [nan_e2, nan_e3] = [nan_e0, nan_e1, nan_e2, nan_e3]
   \<and> nan_e0 \<in> set (evaluated nan_mbo1)
   \<and> nan_e2 \<in> set (drop (POP_SIZE demo_globals)
                      (combined_sorted (evaluated nan_mbo0) [nan_e2, nan_e3]))
   \<and> fl_lt (score nan_e2) (score nan_e0) \<and> \<not> fl_le (score nan_e0) (score nan_e2)"
proof -
  have "mbo_generations demo_globals the_hist_ranges nan_env demo_mbo_rnd 0 = Inr nan_mbo0"
    by code_simp
  moreover have "mbo_generation demo_globals the_hist_ranges nan_env demo_mbo_rnd 0 nan_mbo0
      = Inr nan_mbo1" by code_simp
  moreover have "eval_pop demo_globals the_hist_ranges nan_env (length (history nan_mbo0))
        (new_pop (SPACE demo_globals) demo_mbo_rnd 0 (evaluated nan_mbo0)) [] = Inr [nan_e2, nan_e3]"
    by code_simp
  moreover have c: "combined_sorted (evaluated nan_mbo0) [nan_e2, nan_e3]
      = [nan_e0, nan_e1, nan_e2, nan_e3]" by code_simp
  moreover have "nan_e0 \<in> set (evaluated nan_mbo1)" by (simp add: nan_mbo1_def)
  moreover have "nan_e2 \<in> set (drop (POP_SIZE demo_globals)
      (combined_sorted (evaluated nan_mbo0) [nan_e2, nan_e3]))"
    unfolding c by (simp add: demo_globals_def)
  moreover have "fl_lt (score nan_e2) (score nan_e0)" "\<not> fl_le (score nan_e0) (score nan_e2)"
    by (simp_all add: score_def nan_e0_def nan_e2_def)
  ultimately show ?thesis by simp
qed

text \<open>
  C3, as the code has it: a generation of \<open>mbo_optimize\<close> merges the population with
  its offspring, sorts the merged list by score with \<open>list.sort\<close> and keeps the first
  \<open>POP_SIZE\<close> entries. The sorted list is always a permutation of parents and offspring
  together. When no score among them is NaN it is in ascending order of score, and every
  kept entry scores at most as much as every discarded one.
\<close>

theorem merge_sort_truncate:
  assumes "mbo_generation g hr env rnd it st = Inr st'"
  shows "\<exists>offspring.
     eval_pop g hr env (length (history st)) (new_pop (SPACE g) rnd it (evaluated st)) [] = Inr offspring
     \<and> mset (combined_sorted (evaluated st) offspring) = mset (evaluated st) + mset offspring
     \<and> evaluated st' = take (POP_SIZE g) (combined_sorted (evaluated st) offspring)
     \<and> (no_nan (evaluated st @ offspring) \<longrightarrow>
          sorted_wrt (\<lambda>a b. fl_le (score a) (score b)) (combined_sorted (evaluated st) offspring)
          \<and> (\<forall>a\<in>set (evaluated st').
               \<forall>b\<in>set (drop (POP_SIZE g) (combined_sorted (evaluated st) offspring)).
                 fl_le (score a) (score b)))"
proof -
  from assms obtain new
    where new: "eval_pop g hr env (length (history st)) (new_pop (SPACE g) rnd it (evaluated st)) [] = Inr new"
      and ev: "evaluated st' = take (POP_SIZE g) (combined_sorted (evaluated st) new)"
    by (rule mbo_generation_cases)
  let ?cs = "combined_sorted (evaluated st) new"
  have perm: "mset ?cs = mset (evaluated st) + mset new"
    by (simp add: combined_sorted_def mset_list_sort)
  have "sorted_wrt (\<lambda>a b. fl_le (score a) (score b)) ?cs
      \<and> (\<forall>a\<in>set (evaluated st'). \<forall>b\<in>set (drop (POP_SIZE g) ?cs). fl_le (score a) (score b))"
    if nn: "no_nan (evaluated st @ new)"
  proof -
    from nn have "\<forall>x\<in>set (evaluated st @ new). score x \<noteq> NaN" by (simp add: no_nan_iff)
    then have srt: "sorted_wrt (\<lambda>a b. fl_le (score a) (score b)) ?cs"
      unfolding combined_sorted_def by (rule sorted_list_sort)
    from sorted_wrt_take_drop [OF srt, of "POP_SIZE g"] srt show ?thesis unfolding ev by blast
  qed
  with new perm ev show ?thesis by blast
qed

theorem merge_sort_truncate_witness:
  "mbo_generation demo_globals the_hist_ranges demo_env demo_mbo_rnd 0 demo_mbo0 = Inr demo_mbo1
   \<and> eval_pop demo_globals the_hist_ranges demo_env (length (history demo_mbo0))
        (new_pop (SPACE demo_globals) demo_mbo_rnd 0 (evaluated demo_mbo0)) [] = Inr [demo_e90, demo_e85]
   \<and> no_nan (evaluated demo_mbo0 @ [demo_e90, demo_e85])
   \<and> combined_sorted (evaluated demo_mbo0) [demo_e90, demo_e85]
       = [demo_e85, demo_e90, demo_e95, demo_e100]
   \<and> evaluated demo_mbo1 = [demo_e85, demo_e90]
   \<and> drop (POP_SIZE demo_globals) (combined_sorted (evaluated demo_mbo0) [demo_e90, demo_e85])
       = [demo_e95, demo_e100]
   \<and> fl_le (score demo_e85) (score demo_e95) \<and> fl_le (score demo_e85) (score demo_e100)
   \<and> fl_le (score demo_e90) (score demo_e95) \<and> fl_le (score demo_e90) (score demo_e100)"
proof -
  note o = demo_offspring and c = demo_sorted
  have n: "POP_SIZE demo_globals = 2" by (simp add: demo_globals_def)
  have nn: "no_nan (evaluated demo_mbo0 @ [demo_e90, demo_e85])"
    by (simp add: no_nan_def demo_mbo0_def demo_e100_def demo_e95_def demo_e90_def demo_e85_def
        score_def)
  from merge_sort_truncate [OF demo_mbo_generation] obtain offspring
    where o': "eval_pop demo_globals the_hist_ranges demo_env (length (history demo_mbo0))
        (new_pop (SPACE demo_globals) demo_mbo_rnd 0 (evaluated demo_mbo0)) [] = Inr offspring"
      and k: "evaluated demo_mbo1
        = take (POP_SIZE demo_globals) (combined_sorted (evaluated demo_mbo0) offspring)"
      and le: "no_nan (evaluated demo_mbo0 @ offspring) \<longrightarrow>
          (\<forall>a\<in>set (evaluated demo_mbo1).
          \<forall>b\<in>set (drop (POP_SIZE demo_globals) (combined_sorted (evaluated demo_mbo0) offspring)).
            fl_le (score a) (score b))"
    by blast
  from o o' have off: "offspring = [demo_e90, demo_e85]" by simp
  from k have kept: "evaluated demo_mbo1 = [demo_e85, demo_e90]" unfolding off c n by simp
  have dropped: "drop (POP_SIZE demo_globals) (combined_sorted (evaluated demo_mbo0) [demo_e90, demo_e85])
       = [demo_e95, demo_e100]"
    unfolding c n by simp
  from le nn have "fl_le (score demo_e85) (score demo_e95) \<and> fl_le (score demo_e85) (score demo_e100)
     \<and> fl_le (score demo_e90) (score demo_e95) \<and> fl_le (score demo_e90) (score demo_e100)"
    unfolding off dropped kept by simp
  with demo_mbo_generation o c nn kept dropped show ?thesis by blast
qed


text \<open>
  C4: in both modes the number of candidates is the configured population size after the
  initial scoring and after every generation (so also before the next one); inside a
  generation of \<open>differential_evolution\<close> every pass of the inner loop leaves the
  lengths of the population and of the fitness list as they are.
\<close>

theorem population_size_invariant:
  "(de_generations cfg rnd n = Inr st \<longrightarrow>
      length (population st) = pop_size cfg \<and> length (fitness st) = pop_size cfg)
   \<and> (de_step cfg d i st0 = Inr st1 \<longrightarrow>
      length (population st1) = length (population st0) \<and> length (fitness st1) = length (fitness st0))
   \<and> (mbo_generations g hr env r n = Inr mt \<longrightarrow> length (evaluated mt) = POP_SIZE g)"
proof (intro conjI impI)
  assume "de_generations cfg rnd n = Inr st"
  from de_generations_inv [OF this] have inv: "de_inv cfg st" by simp
  then show "length (population st) = pop_size cfg" by (simp add: de_inv_def)
  from inv show "length (fitness st) = pop_size cfg"
    by (auto simp: de_inv_def dest: list_all2_lengthD)
next
  assume "de_step cfg d i st0 = Inr st1"
  then obtain trial tf
    where a: "tf < fitness st0 ! i \<Longrightarrow>
        population st1 = (population st0)[i := trial] \<and> fitness st1 = (fitness st0)[i := tf]"
      and b: "\<not> tf < fitness st0 ! i \<Longrightarrow>
        population st1 = population st0 \<and> fitness st1 = fitness st0"
    by (rule de_step_cases) blast
  from a b show "length (population st1) = length (population st0)"
    by (cases "tf < fitness st0 ! i") simp_all
  from a b show "length (fitness st1) = length (fitness st0)"
    by (cases "tf < fitness st0 ! i") simp_all
next
  assume "mbo_generations g hr env r n = Inr mt"
  from mbo_generations_inv [OF this] show "length (evaluated mt) = POP_SIZE g"
    by (simp add: mbo_inv_def)
qed

theorem population_size_invariant_witness:
  "de_generations demo_cfg demo_rnd (Suc 0) = Inr demo_st1
   \<and> length (population demo_st1) = 4 \<and> length (fitness demo_st1) = 4
   \<and> de_step demo_cfg (demo_draws 0 0) 0 demo_st0 = Inr demo_accepted
   \<and> length (population demo_accepted) = length (population demo_st0)
   \<and> mbo_generations demo_globals the_hist_ranges demo_env demo_mbo_rnd (Suc 0) = Inr demo_mbo1
   \<and> length (evaluated demo_mbo1) = 2"
  using population_size_invariant [of demo_cfg demo_rnd "Suc 0" demo_st1 "demo_draws 0 0" 0
      demo_st0 demo_accepted demo_globals the_hist_ranges demo_env demo_mbo_rnd demo_mbo1]
    demo_gens1 demo_step_accepted demo_mbo_gens1
  by (simp add: demo_cfg_def demo_globals_def)


text \<open>
  C5: every vector is in its bounds when it is scored, and its integer components (replicas
  and parallel jobs, indices 2 and 3) are integers, the initial population included. The
  trials are rounded at lines 58 and 59, but line 27 draws all four components of an initial
  individual with \<open>random.uniform\<close> and line 30 scores them as drawn: on the draws
  of \<open>demo_rnd\<close> the first individual scored has 13/4 replicas and 5/2 parallel
  jobs.
\<close>

theorem initial_population_unrounded:
  "de_init demo_cfg demo_rnd = Inr demo_st0
   \<and> population demo_st0 ! 0 = [1 / 10, 736, 13 / 4, 5 / 2]
   \<and> evaluate_cicd (population demo_st0 ! 0) = Inr (5007467 / 1000)
   \<and> scored demo_st0 ! 0 = 5007467 / 1000
   \<and> population demo_st0 ! 0 ! 2 \<notin> \<int> \<and> population demo_st0 ! 0 ! 3 \<notin> \<int>"
proof -
  have i: "de_init demo_cfg demo_rnd = Inr demo_st0" by code_simp
  have p: "population demo_st0 ! 0 = [1 / 10, 736, 13 / 4, 5 / 2]" by (simp add: demo_st0_def)
  have e: "evaluate_cicd [1 / 10, 736, 13 / 4, 5 / 2] = Inr (5007467 / 1000)" by code_simp
  have s: "scored demo_st0 ! 0 = 5007467 / 1000" by (simp add: demo_st0_def)
  have "frac (13 / 4 :: real) \<noteq> 0" "frac (5 / 2 :: real) \<noteq> 0" by (simp_all add: frac_def)
  then have "(13 / 4 :: real) \<notin> \<int>" "(5 / 2 :: real) \<notin> \<int>" by (simp_all only: frac_eq_0_iff not_False_eq_True)
  with i p e s show ?thesis by simp
qed


text \<open>
  C6 as it is stated does not hold: \<open>differential_evolution\<close> checks nothing
  before it starts. The call with \<open>pop_size=3\<close> scores its three initial
  individuals and then fails with the ValueError of \<open>random.sample\<close>, after three
  evaluations.
\<close>

theorem small_population_fails_late:
  "differential_evolution small_cfg demo_rnd = Inl (ValueError, 3)
   \<and> de_init small_cfg demo_rnd
       = Inr \<lparr>population = [[1 / 10, 736, 13 / 4, 5 / 2], [27 / 80, 1216, 35 / 8, 3],
                 [23 / 40, 1696, 11 / 2, 7 / 2]],
              fitness = [5007467 / 1000, 80604233 / 54000, 2542872 / 2875],
              scored = [5007467 / 1000, 80604233 / 54000, 2542872 / 2875]\<rparr>"
proof -
  have "differential_evolution small_cfg demo_rnd = Inl (ValueError, 3)" by code_simp
  moreover have "de_init small_cfg demo_rnd
       = Inr \<lparr>population = [[1 / 10, 736, 13 / 4, 5 / 2], [27 / 80, 1216, 35 / 8, 3],
                 [23 / 40, 1696, 11 / 2, 7 / 2]],
              fitness = [5007467 / 1000, 80604233 / 54000, 2542872 / 2875],
              scored = [5007467 / 1000, 80604233 / 54000, 2542872 / 2875]\<rparr>" by code_simp
  ultimately show ?thesis by simp
qed

text \<open>
  C6, as the code has it. With four bounds, a positive lower bound of \<open>cpu\<close> that
  is not above the upper one, and draws of \<open>random()\<close> that are not negative, a
  call with \<open>pop_size\<close> of at least 4 completes all \<open>max_iter\<close>
  iterations and returns a vector and its score, after
  \<open>pop_size * (max_iter + 1)\<close> evaluations; a call with \<open>pop_size\<close>
  between 1 and 3 and at least one iteration scores the whole initial population and then
  raises the ValueError of \<open>random.sample\<close> in the first pass, after
  \<open>pop_size\<close> evaluations.
\<close>

theorem de_run_completes_or_fails_after_init:
  assumes dim: "length (bounds cfg) = 4"
    and pos: "0 < fst (bounds cfg ! 0)" and b0: "fst (bounds cfg ! 0) \<le> snd (bounds cfg ! 0)"
    and u: "\<forall>p j. 0 \<le> init_u rnd p j"
  shows "(4 \<le> pop_size cfg \<longrightarrow>
      (\<exists>x s st. differential_evolution cfg rnd = Inr (x, s)
         \<and> de_generations cfg rnd (max_iter cfg) = Inr st
         \<and> length (scored st) = pop_size cfg * Suc (max_iter cfg)))
    \<and> (0 < pop_size cfg \<and> pop_size cfg < 4 \<and> 0 < max_iter cfg \<longrightarrow>
      (\<exists>st0. de_init cfg rnd = Inr st0 \<and> length (scored st0) = pop_size cfg)
      \<and> differential_evolution cfg rnd = Inl (ValueError, pop_size cfg))"
proof (intro conjI impI)
  assume n: "4 \<le> pop_size cfg"
  from de_generations_total [OF n dim pos b0 u] obtain st
    where st: "de_generations cfg rnd (max_iter cfg) = Inr st" and ok: "de_ok cfg st" by blast
  from ok n have "fitness st \<noteq> []" by (auto simp: de_ok_def)
  with st have "\<exists>x s. differential_evolution cfg rnd = Inr (x, s)"
    by (simp add: differential_evolution_def Let_def)
  with st de_generations_inv [OF st]
  show "\<exists>x s st. differential_evolution cfg rnd = Inr (x, s)
         \<and> de_generations cfg rnd (max_iter cfg) = Inr st
         \<and> length (scored st) = pop_size cfg * Suc (max_iter cfg)" by blast
next
  assume a: "0 < pop_size cfg \<and> pop_size cfg < 4 \<and> 0 < max_iter cfg"
  from de_init_total [OF dim pos b0 u] obtain st0 where i: "de_init cfg rnd = Inr st0" by blast
  then have "de_generations cfg rnd 0 = Inr st0" by simp
  from de_generations_inv [OF this] i
  show "\<exists>st0. de_init cfg rnd = Inr st0 \<and> length (scored st0) = pop_size cfg" by simp
  from a obtain k where k: "max_iter cfg = Suc k" by (cases "max_iter cfg") auto
  from a i have "de_generations cfg rnd (Suc k) = Inl (ValueError, pop_size cfg)"
    by (intro de_small_population_fails) simp_all
  then show "differential_evolution cfg rnd = Inl (ValueError, pop_size cfg)"
    by (simp add: differential_evolution_def k)
qed

theorem de_run_completes_or_fails_after_init_witness:
  "(\<exists>x s st. differential_evolution demo_cfg demo_rnd = Inr (x, s)
         \<and> de_generations demo_cfg demo_rnd (max_iter demo_cfg) = Inr st
         \<and> length (scored st) = pop_size demo_cfg * Suc (max_iter demo_cfg))
   \<and> (\<exists>st0. de_init small_cfg demo_rnd = Inr st0 \<and> length (scored st0) = pop_size small_cfg)
   \<and> differential_evolution small_cfg demo_rnd = Inl (ValueError, pop_size small_cfg)"
  using de_run_completes_or_fails_after_init [of demo_cfg demo_rnd]
    de_run_completes_or_fails_after_init [of small_cfg demo_rnd]
  by (simp add: demo_cfg_def small_cfg_def module_bounds_def demo_rnd_def)


text \<open>
  C7 as it is stated does not hold: failing telemetry is absorbed, but nothing catches an
  exception of \<open>k8s_client\<close> or of \<open>patch_deployment_params\<close>. On
  \<open>patch_failing_env\<close> all telemetry fails, the fourth patch raises, and the run
  ends with that exception after three evaluations.
\<close>

theorem patch_failure_ends_run:
  "mbo_optimize demo_globals patch_failing_env demo_mbo_rnd = Inl (ApiException, 3)
   \<and> fetch_current_metrics (prometheus patch_failing_env 3)
       = \<lparr>build_duration = Num 300, cpu_usage = Num (1 / 2), memory = Num 0\<rparr>
   \<and> client_ok patch_failing_env \<and> \<not> patch_ok patch_failing_env 3"
proof -
  have "mbo_optimize demo_globals patch_failing_env demo_mbo_rnd = Inl (ApiException, 3)"
    by code_simp
  moreover have "fetch_current_metrics (prometheus patch_failing_env 3)
       = \<lparr>build_duration = Num 300, cpu_usage = Num (1 / 2), memory = Num 0\<rparr>"
    by code_simp
  ultimately show ?thesis by (simp add: patch_failing_env_def)
qed

text \<open>
  C7, as the code has it: when every one of the three attempts of every telemetry query
  fails (it raises, or answers without success), \<open>fetch_current_metrics\<close> returns
  the defaults (build duration 300, cpu 0.5, memory 0) instead of raising, and every
  evaluation gets the score of those defaults. When moreover the calls to the cluster all
  return (and, as in the module, \<open>POP_SIZE\<close> is positive and the ranges of
  replicas and concurrency are not empty), \<open>mbo_optimize\<close> completes all
  \<open>MAX_ITERS\<close> iterations (\<open>POP_SIZE * (MAX_ITERS + 1)\<close> evaluations)
  and returns the \<open>best\<close> of the final state, which is the first entry the run
  scored and has the score of the defaults. The concrete run has the constants of the
  module, 8 and 12.
\<close>

theorem telemetry_failure_fallback:
  assumes fail: "\<forall>n q a. a < 3 \<longrightarrow> (\<forall>r. prometheus env n q a \<noteq> Success r)"
    and api: "client_ok env" "\<forall>n. patch_ok env n"
    and size: "0 < POP_SIZE g"
    and sp: "fst (space_replicas (SPACE g)) \<le> snd (space_replicas (SPACE g))"
      "fst (space_concurrency (SPACE g)) \<le> snd (space_concurrency (SPACE g))"
  shows "fetch_current_metrics (prometheus env n)
       = \<lparr>build_duration = Num 300, cpu_usage = Num 0.5, memory = Num 0\<rparr>
    \<and> (\<exists>st. mbo_generations g the_hist_ranges env rnd (MAX_ITERS g) = Inr st
         \<and> mbo_optimize g env rnd = Inr (best st)
         \<and> best st = hd (history st)
         \<and> length (evaluated st) = POP_SIZE g
         \<and> length (history st) = POP_SIZE g * Suc (MAX_ITERS g)
         \<and> (\<forall>e\<in>set (history st).
              snd (snd e) = \<lparr>build_duration = Num 300, cpu_usage = Num 0.5, memory = Num 0\<rparr>
              \<and> score e = fl_add (fl_mul (ALPHA g) (Num (5 / 17))) (fl_mul (BETA g) (Num (49 / 199))))
         \<and> score (best st)
             = fl_add (fl_mul (ALPHA g) (Num (5 / 17))) (fl_mul (BETA g) (Num (49 / 199))))"
proof -
  let ?c = "fl_add (fl_mul (ALPHA g) (Num (5 / 17))) (fl_mul (BETA g) (Num (49 / 199)))"
  have m: "fetch_current_metrics (prometheus env k)
       = \<lparr>build_duration = Num 300, cpu_usage = Num 0.5, memory = Num 0\<rparr>" for k
    using fail by (intro fetch_fallback) simp
  from mbo_generations_total [OF api size sp] obtain st
    where st: "mbo_generations g the_hist_ranges env rnd (MAX_ITERS g) = Inr st" by blast
  from mbo_generations_inv [OF st] have inv: "mbo_inv g st"
    and len: "length (history st) = POP_SIZE g * Suc (MAX_ITERS g)" by simp_all
  have ent: "\<forall>e\<in>set (history st).
      snd (snd e) = \<lparr>build_duration = Num 300, cpu_usage = Num 0.5, memory = Num 0\<rparr>
      \<and> score e = ?c"
  proof
    fix e assume "e \<in> set (history st)"
    with mbo_history_entries [OF st] obtain k ind
      where "e = entry_at g the_hist_ranges env k ind" by blast
    then show "snd (snd e) = \<lparr>build_duration = Num 300, cpu_usage = Num 0.5, memory = Num 0\<rparr>
      \<and> score e = ?c"
      using fallback_score [of g] by (simp add: entry_at_def score_def m)
  qed
  then have "\<forall>e\<in>set (history st). score e = ?c" by blast
  from mbo_best_first [OF st this] have first: "best st = hd (history st)" .
  from inv have bin: "best st \<in> set (history st)" and le: "length (evaluated st) = POP_SIZE g"
    by (simp_all add: mbo_inv_def)
  with ent have "score (best st) = ?c" by blast
  moreover from st have "mbo_optimize g env rnd = Inr (best st)" by (simp add: mbo_optimize_def)
  ultimately show ?thesis using m st len le ent first by blast
qed

theorem telemetry_failure_fallback_witness:
  "fetch_current_metrics (prometheus failing_env 0)
       = \<lparr>build_duration = Num 300, cpu_usage = Num 0.5, memory = Num 0\<rparr>
   \<and> (\<exists>st. mbo_generations (module_globals (Num 0.7) (Num 0.3)) the_hist_ranges failing_env
              demo_mbo_rnd 12 = Inr st
         \<and> mbo_optimize (module_globals (Num 0.7) (Num 0.3)) failing_env demo_mbo_rnd = Inr (best st)
         \<and> best st = hd (history st)
         \<and> length (evaluated st) = 8
         \<and> length (history st) = 104
         \<and> score (best st) = Num (4732 / 16915))
   \<and> mbo_optimize demo_globals failing_env demo_mbo_rnd
       = Inr (\<lparr>replicas = 1, cpu = 1 / 10, concurrency = 2\<rparr>, Num (4732 / 16915),
              \<lparr>build_duration = Num 300, cpu_usage = Num (1 / 2), memory = Num 0\<rparr>)"
proof -
  have r: "mbo_optimize demo_globals failing_env demo_mbo_rnd
       = Inr (\<lparr>replicas = 1, cpu = 1 / 10, concurrency = 2\<rparr>, Num (4732 / 16915),
              \<lparr>build_duration = Num 300, cpu_usage = Num (1 / 2), memory = Num 0\<rparr>)"
    by code_simp
  have "fetch_current_metrics (prometheus failing_env 0)
       = \<lparr>build_duration = Num 300, cpu_usage = Num 0.5, memory = Num 0\<rparr>
   \<and> (\<exists>st. mbo_generations (module_globals (Num 0.7) (Num 0.3)) the_hist_ranges failing_env
              demo_mbo_rnd (MAX_ITERS (module_globals (Num 0.7) (Num 0.3))) = Inr st
         \<and> mbo_optimize (module_globals (Num 0.7) (Num 0.3)) failing_env demo_mbo_rnd = Inr (best st)
         \<and> best st = hd (history st)
         \<and> length (evaluated st) = POP_SIZE (module_globals (Num 0.7) (Num 0.3))
         \<and> length (history st) = POP_SIZE (module_globals (Num 0.7) (Num 0.3))
              * Suc (MAX_ITERS (module_globals (Num 0.7) (Num 0.3)))
         \<and> (\<forall>e\<in>set (history st).
              snd (snd e) = \<lparr>build_duration = Num 300, cpu_usage = Num 0.5, memory = Num 0\<rparr>
              \<and> score e = fl_add (fl_mul (ALPHA (module_globals (Num 0.7) (Num 0.3))) (Num (5 / 17)))
                            (fl_mul (BETA (module_globals (Num 0.7) (Num 0.3))) (Num (49 / 199))))
         \<and> score (best st)
             = fl_add (fl_mul (ALPHA (module_globals (Num 0.7) (Num 0.3))) (Num (5 / 17)))
                 (fl_mul (BETA (module_globals (Num 0.7) (Num 0.3))) (Num (49 / 199))))"
    by (rule telemetry_failure_fallback) (simp_all add: failing_env_def module_globals_def)
  then obtain st
    where "mbo_generations (module_globals (Num 0.7) (Num 0.3)) the_hist_ranges failing_env
              demo_mbo_rnd (MAX_ITERS (module_globals (Num 0.7) (Num 0.3))) = Inr st"
      and "mbo_optimize (module_globals (Num 0.7) (Num 0.3)) failing_env demo_mbo_rnd = Inr (best st)"
      and "best st = hd (history st)"
      and "length (evaluated st) = POP_SIZE (module_globals (Num 0.7) (Num 0.3))"
      and "length (history st) = POP_SIZE (module_globals (Num 0.7) (Num 0.3))
              * Suc (MAX_ITERS (module_globals (Num 0.7) (Num 0.3)))"
      and "score (best st)
             = fl_add (fl_mul (ALPHA (module_globals (Num 0.7) (Num 0.3))) (Num (5 / 17)))
                 (fl_mul (BETA (module_globals (Num 0.7) (Num 0.3))) (Num (49 / 199)))"
      and m: "fetch_current_metrics (prometheus failing_env 0)
       = \<lparr>build_duration = Num 300, cpu_usage = Num 0.5, memory = Num 0\<rparr>"
    by blast
  then have "mbo_generations (module_globals (Num 0.7) (Num 0.3)) the_hist_ranges failing_env
              demo_mbo_rnd 12 = Inr st
         \<and> mbo_optimize (module_globals (Num 0.7) (Num 0.3)) failing_env demo_mbo_rnd = Inr (best st)
         \<and> best st = hd (history st)
         \<and> length (evaluated st) = 8
         \<and> length (history st) = 104
         \<and> score (best st) = Num (4732 / 16915)"
    by (simp add: module_globals_def)
  with r m show ?thesis by blast
qed


text \<open>
  C8: \<open>normalize v lo hi\<close> is 0 when \<open>lo = hi\<close>, whatever \<open>v\<close> is. When
  \<open>lo \<noteq> hi\<close> it is 0 at \<open>v = lo\<close> and 1 at \<open>v = hi\<close>, and it maps
  \<open>lo + t * (hi - lo)\<close> to \<open>t\<close> for every \<open>t\<close>, inside \<open>[0, 1]\<close> or
  outside it. For \<open>lo < hi\<close> it is non-decreasing in \<open>v\<close>, and strictly
  increasing; a value below \<open>lo\<close> is mapped below 0 and a value above \<open>hi\<close>
  above 1. Here \<open>v\<close> is any float, an infinity or NaN included (nothing compares with
  NaN), and \<open>lo\<close> and \<open>hi\<close> are numbers.
\<close>

theorem normalize_spec:
  "normalize_val v lo lo = Num 0
   \<and> (lo \<noteq> hi \<longrightarrow> normalize_val (Num lo) lo hi = Num 0 \<and> normalize_val (Num hi) lo hi = Num 1
         \<and> normalize_val (Num (lo + t * (hi - lo))) lo hi = Num t)
   \<and> (lo < hi \<and> fl_le v w \<longrightarrow> fl_le (normalize_val v lo hi) (normalize_val w lo hi))
   \<and> (lo < hi \<and> fl_lt v w \<longrightarrow> fl_lt (normalize_val v lo hi) (normalize_val w lo hi))
   \<and> (lo < hi \<and> fl_lt v (Num lo) \<longrightarrow> fl_lt (normalize_val v lo hi) (Num 0))
   \<and> (lo < hi \<and> fl_lt (Num hi) v \<longrightarrow> fl_lt (Num 1) (normalize_val v lo hi))"
proof (intro conjI impI)
  show "normalize_val v lo lo = Num 0" by (simp add: normalize_val_def)
next
  assume "lo \<noteq> hi"
  then show "normalize_val (Num lo) lo hi = Num 0" "normalize_val (Num hi) lo hi = Num 1"
    "normalize_val (Num (lo + t * (hi - lo))) lo hi = Num t"
    by (simp_all add: normalize_val_def fl_sub_def)
next
  assume "lo < hi \<and> fl_le v w"
  then show "fl_le (normalize_val v lo hi) (normalize_val w lo hi)"
    by (cases v; cases w) (simp_all add: normalize_val_def fl_sub_def fl_inf_def divide_right_mono)
next
  assume "lo < hi \<and> fl_lt v w"
  then show "fl_lt (normalize_val v lo hi) (normalize_val w lo hi)"
    by (cases v; cases w)
      (simp_all add: normalize_val_def fl_sub_def fl_inf_def divide_strict_right_mono)
next
  assume "lo < hi \<and> fl_lt v (Num lo)"
  then show "fl_lt (normalize_val v lo hi) (Num 0)"
    by (cases v) (simp_all add: normalize_val_def fl_sub_def fl_inf_def divide_neg_pos)
next
  assume "lo < hi \<and> fl_lt (Num hi) v"
  then show "fl_lt (Num 1) (normalize_val v lo hi)"
    by (cases v) (simp_all add: normalize_val_def fl_sub_def fl_inf_def)
qed

theorem normalize_spec_witness:
  "normalize_val NaN 3 3 = Num 0 \<and> normalize_val (Num 50) 50 900 = Num 0
   \<and> normalize_val (Num 900) 50 900 = Num 1
   \<and> normalize_val (Num (50 + 2 * (900 - 50))) 50 900 = Num 2
   \<and> normalize_val (Num 300) 50 900 = Num (5 / 17) \<and> normalize_val (Num 1000) 50 900 = Num (19 / 17)
   \<and> normalize_val (Num 0) 50 900 = Num (- (1 / 17))
   \<and> fl_le (normalize_val (Num 300) 50 900) (normalize_val (Num 1000) 50 900)
   \<and> fl_lt (normalize_val (Num 300) 50 900) (normalize_val (Num 1000) 50 900)
   \<and> fl_lt (normalize_val (Num 0) 50 900) (Num 0)
   \<and> fl_lt (Num 1) (normalize_val (Num 1000) 50 900)
   \<and> fl_lt (Num 1) (normalize_val PInf 50 900)"
proof -
  have v: "normalize_val (Num 300) 50 900 = Num (5 / 17)"
    "normalize_val (Num 1000) 50 900 = Num (19 / 17)"
    "normalize_val (Num 0) 50 900 = Num (- (1 / 17))"
    by (simp_all add: normalize_val_def fl_sub_def)
  from normalize_spec [of NaN 3 3 2 NaN] normalize_spec [of "Num 300" 50 900 2 "Num 1000"]
    normalize_spec [of "Num 0" 50 900 2 "Num 0"] normalize_spec [of "Num 1000" 50 900 2 "Num 0"]
    normalize_spec [of PInf 50 900 2 "Num 0"]
  show ?thesis unfolding v by simp
qed


text \<open>
  C9: for bounds with lower \<open>\<le>\<close> upper, clamping is defined for every vector
  of the dimension of the bounds (\<open>clip_mutant\<close> has no error result), its result is
  inside the bounds, and clamping twice is clamping once; the same for the
  \<open>max(lo, min(hi, x))\<close> of the telemetry-driven loop. Clamping does not round: a
  fractional value inside the bounds of an integer dimension stays as it is.
\<close>

theorem clamp_total_idempotent:
  assumes "length v = length bs" and "\<forall>b\<in>set bs. fst b \<le> snd b" and "lo \<le> hi"
  shows "length (clip_mutant bs v) = length bs
    \<and> clip_mutant bs (clip_mutant bs v) = clip_mutant bs v
    \<and> (\<forall>j<length bs. fst (bs ! j) \<le> clip_mutant bs v ! j \<and> clip_mutant bs v ! j \<le> snd (bs ! j))
    \<and> clamp_to lo hi (clamp_to lo hi x) = clamp_to lo hi x
    \<and> lo \<le> clamp_to lo hi x \<and> clamp_to lo hi x \<le> hi"
proof -
  have "clip_mutant bs (clip_mutant bs v) = clip_mutant bs v"
    by (simp add: clip_mutant_def np_clip_idem)
  moreover have "\<forall>j<length bs. fst (bs ! j) \<le> clip_mutant bs v ! j \<and> clip_mutant bs v ! j \<le> snd (bs ! j)"
    using assms(2) by (simp add: clip_mutant_def np_clip_bounds)
  moreover have "clamp_to lo hi (clamp_to lo hi x) = clamp_to lo hi x"
    by (simp add: clamp_to_def min_def max_def)
  moreover from assms(3) have "lo \<le> clamp_to lo hi x \<and> clamp_to lo hi x \<le> hi"
    by (simp add: clamp_to_def)
  ultimately show ?thesis by (simp add: clip_mutant_def)
qed

theorem clamp_total_idempotent_witness:
  "clip_mutant module_bounds [5, 100, 5 / 2, - 3] = [2, 256, 5 / 2, 1]
   \<and> clip_mutant module_bounds [2, 256, 5 / 2, 1] = [2, 256, 5 / 2, 1]
   \<and> clamp_to (1 :: int) 4 (clamp_to 1 4 7) = clamp_to 1 4 7 \<and> clamp_to (1 :: int) 4 7 = 4"
proof -
  have c: "clip_mutant module_bounds [5, 100, 5 / 2, - 3] = [2, 256, 5 / 2, 1]" by code_simp
  have k: "clamp_to (1 :: int) 4 7 = 4" by (simp add: clamp_to_def)
  from clamp_total_idempotent [of "[5, 100, 5 / 2, - 3]" module_bounds "1 :: int" 4 7]
  have "clip_mutant module_bounds (clip_mutant module_bounds [5, 100, 5 / 2, - 3])
      = clip_mutant module_bounds [5, 100, 5 / 2, - 3]
    \<and> clamp_to (1 :: int) 4 (clamp_to 1 4 7) = clamp_to 1 4 7"
    by (simp add: module_bounds_def)
  with c k show ?thesis by simp
qed




end
